theory Spec2Isabelle
  imports Complex_Main "HOL-Library.Product_Lexorder"
begin

section \<open>Common vocabulary\<close>

text \<open>
  Exceptions, failed assertions and reads through a null or dangling handle are values:
  every operation that can raise returns a sum whose left injection is the failure.
  \<^item> \<open>RuntimeError msg\<close> is a thrown \<^verbatim>\<open>std::runtime_error(msg)\<close>;
  \<^item> \<open>AssertionFailed cond\<close> is a failing \<^verbatim>\<open>assert(cond)\<close>;
  \<^item> \<open>UndefinedBehaviour what\<close> is an access the C++ standard leaves undefined
    (null dereference, \<^verbatim>\<open>back()\<close> of an empty vector, use of an invalidated iterator).
\<close>

datatype error =
    RuntimeError string
  | AssertionFailed string
  | UndefinedBehaviour string

datatype log_level = INFO | WARNING | ERROR | FATAL

type_synonym log_entry = "log_level \<times> string"

text \<open>
  A counted loop \<^verbatim>\<open>for (size_t i = a; i < b; ++i) body\<close> whose body may fail:
  the indices are visited in order and the first failure leaves the loop.
\<close>

fun for_loop ::
  "nat list \<Rightarrow> (nat \<Rightarrow> 's \<Rightarrow> (error + unit) \<times> 's) \<Rightarrow> 's \<Rightarrow> (error + unit) \<times> 's" where
  "for_loop [] body s = (Inr (), s)"
| "for_loop (i # is) body s =
     (case body i s of (Inl e, s') \<Rightarrow> (Inl e, s') | (Inr _, s') \<Rightarrow> for_loop is body s')"

section \<open>Doubles that are not numbers\<close>

text \<open>
  Spatial values are modelled as exact reals (rounding is not modelled). The one place
  where IEEE arithmetic leaves the reals in the code below is the division of two norms:
  a quotient by zero is an infinity, and \<open>0 / 0\<close> is not a number. Comparisons with a NaN
  are false.
\<close>

datatype dbl = Fin real | PInf | NInf | NaN

fun dbl_div :: "dbl \<Rightarrow> dbl \<Rightarrow> dbl" where
  "dbl_div (Fin a) (Fin b) =
     (if b \<noteq> 0 then Fin (a / b)
      else if a > 0 then PInf else if a < 0 then NInf else NaN)"
| "dbl_div (Fin a) PInf = Fin 0"
| "dbl_div (Fin a) NInf = Fin 0"
| "dbl_div PInf (Fin b) = (if b < 0 then NInf else PInf)"
| "dbl_div NInf (Fin b) = (if b < 0 then PInf else NInf)"
| "dbl_div _ _ = NaN"

fun dbl_less :: "dbl \<Rightarrow> dbl \<Rightarrow> bool" where
  "dbl_less (Fin a) (Fin b) = (a < b)"
| "dbl_less (Fin a) PInf = True"
| "dbl_less NInf (Fin b) = True"
| "dbl_less NInf PInf = True"
| "dbl_less _ _ = False"

text \<open>
  \<^verbatim>\<open>std::max_element\<close>: the first element is the candidate, and a later element replaces
  the candidate when the candidate compares less than it. On an empty range the returned
  iterator is the end iterator, whose dereference is undefined.
\<close>

fun max_element_from :: "dbl \<Rightarrow> dbl list \<Rightarrow> dbl" where
  "max_element_from largest [] = largest"
| "max_element_from largest (x # xs) =
     max_element_from (if dbl_less largest x then x else largest) xs"

fun max_element :: "dbl list \<Rightarrow> error + dbl" where
  "max_element [] = Inl (UndefinedBehaviour ''dereference of end iterator'')"
| "max_element (x # xs) = Inr (max_element_from x xs)"

text \<open>\<^verbatim>\<open>std::vector<double>::resize(n)\<close>: truncate, or pad with value-initialised zeros.\<close>

definition resize_dbl :: "nat \<Rightarrow> dbl list \<Rightarrow> dbl list" where
  "resize_dbl n xs = take n xs @ replicate (n - length xs) (Fin 0)"

section \<open>Encapsulation (\<^verbatim>\<open>encap/eigen3_vector_impl.hpp\<close>)\<close>

text \<open>
  An encapsulation owns one vector of spatial values. A \<^verbatim>\<open>shared_ptr\<close> to one is an
  option, \<open>None\<close> being the null pointer.
\<close>

record Encapsulation =
  data :: "real list"

text \<open>
  \<^verbatim>\<open>zero()\<close> is \<^verbatim>\<open>data().setZero()\<close>: every value of the vector is overwritten with zero.
\<close>

definition zero :: "Encapsulation \<Rightarrow> Encapsulation" where
  "zero e = e\<lparr>data := map (\<lambda>_. 0) (data e)\<rparr>"

text \<open>
  \<^verbatim>\<open>Encapsulation(size)\<close>: the member initialiser \<^verbatim>\<open>_data(size)\<close> allocates \<open>size\<close> values
  and leaves them uninitialised; the body then calls \<^verbatim>\<open>zero()\<close>. What the fresh storage
  holds is not determined by the program: \<open>uninitialised i\<close> is the value found at
  position \<open>i\<close>.
\<close>

definition Encapsulation_of_size :: "(nat \<Rightarrow> real) \<Rightarrow> nat \<Rightarrow> Encapsulation" where
  "Encapsulation_of_size uninitialised n = zero \<lparr>data = map uninitialised [0..<n]\<rparr>"

text \<open>\<^verbatim>\<open>norm0()\<close>: the infinity norm \<^verbatim>\<open>lpNorm<Eigen::Infinity>\<close>, zero on an empty vector.\<close>

definition norm0 :: "Encapsulation \<Rightarrow> real" where
  "norm0 e = fold (\<lambda>x m. max \<bar>x\<bar> m) (data e) 0"

record EncapsulationFactory =
  factory_size :: nat

text \<open>\<^verbatim>\<open>create()\<close>: \<^verbatim>\<open>make_shared<Encapsulation>(this->size())\<close>, on fresh storage.\<close>

definition create :: "EncapsulationFactory \<Rightarrow> (nat \<Rightarrow> real) \<Rightarrow> Encapsulation" where
  "create f uninitialised = Encapsulation_of_size uninitialised (factory_size f)"

section \<open>Sweeper (\<^verbatim>\<open>sweeper/sweeper_impl.hpp\<close>)\<close>

text \<open>
  Modelled from the spec: the quadrature and status classes are declared in headers that
  are not part of the sources. The sweeper reads \<^verbatim>\<open>get_num_nodes()\<close> and
  \<^verbatim>\<open>right_is_node()\<close> of the quadrature, and the residual norms of the status.
\<close>

record IQuadrature =
  nodes :: "real list"
  right_is_node :: bool

definition get_num_nodes :: "IQuadrature \<Rightarrow> nat" where
  "get_num_nodes q = length (nodes q)"

record Status =
  time :: real
  dt :: real
  t_end :: real
  iteration :: nat
  max_iterations :: nat
  abs_res_norm :: dbl
  rel_res_norm :: dbl

record Sweeper =
  quadrature :: "IQuadrature option"
  factory :: EncapsulationFactory
  states :: "Encapsulation option list"
  previous_states :: "Encapsulation option list"
  end_state :: "Encapsulation option"
  tau :: "Encapsulation option list"
  residuals :: "Encapsulation option list"
  status :: "Status option"
  abs_residual_tol :: real
  rel_residual_tol :: real
  abs_res_norms :: "dbl list"
  rel_res_norms :: "dbl list"
  logged :: "log_entry list"

text \<open>The constructor \<^verbatim>\<open>Sweeper()\<close>.\<close>

definition Sweeper_new :: Sweeper where
  "Sweeper_new =
     \<lparr>quadrature = None, factory = \<lparr>factory_size = 0\<rparr>, states = [], previous_states = [],
      end_state = None, tau = [], residuals = [], status = None,
      abs_residual_tol = 0, rel_residual_tol = 0, abs_res_norms = [], rel_res_norms = [],
      logged = []\<rparr>"

definition ml_clog :: "log_level \<Rightarrow> string \<Rightarrow> Sweeper \<Rightarrow> Sweeper" where
  "ml_clog lvl msg s = s\<lparr>logged := logged s @ [(lvl, msg)]\<rparr>"

text \<open>
  \<^verbatim>\<open>vector<shared_ptr<encap_t>>::resize(n)\<close> truncates or pads with null pointers;
  \<^verbatim>\<open>std::generate\<close> then overwrites every entry, in order, with a fresh
  \<^verbatim>\<open>factory.create()\<close>. Each container gets storage of its own: \<open>fresh j\<close> is what the
  storage of the \<open>j\<close>-th container allocated holds before it is initialised, and \<open>k\<close> is
  the number of containers allocated before the call.
\<close>

definition resize_ptr :: "nat \<Rightarrow> 'a option list \<Rightarrow> 'a option list" where
  "resize_ptr n xs = take n xs @ replicate (n - length xs) None"

definition generate ::
  "EncapsulationFactory \<Rightarrow> (nat \<Rightarrow> nat \<Rightarrow> real) \<Rightarrow> nat \<Rightarrow> Encapsulation option list
     \<Rightarrow> Encapsulation option list" where
  "generate f fresh k xs = map (\<lambda>i. Some (create f (fresh (k + i)))) [0..<length xs]"

definition initial_state :: "Sweeper \<Rightarrow> (error + Encapsulation option) \<times> Sweeper" where
  "initial_state s =
     (if length (states s) = 0 then
        (Inl (RuntimeError ''sweeper not setup before querying initial state''),
         ml_clog ERROR ''Sweeper need to be setup first before querying initial state.'' s)
      else (Inr (hd (states s)), s))"

definition get_initial_state :: "Sweeper \<Rightarrow> (error + Encapsulation option) \<times> Sweeper" where
  "get_initial_state s =
     (if length (states s) = 0 then
        (Inl (RuntimeError ''sweeper not setup before querying initial state''),
         ml_clog ERROR ''Sweeper need to be setup first before querying initial state.'' s)
      else (Inr (hd (states s)), s))"

text \<open>
  \<^verbatim>\<open>setup()\<close>. The containers are allocated in the order of the statements: the states,
  the previous states, the end state, \<open>tau\<close>, the residuals.
\<close>

definition Sweeper_setup :: "(nat \<Rightarrow> nat \<Rightarrow> real) \<Rightarrow> Sweeper \<Rightarrow> (error + unit) \<times> Sweeper" where
  "Sweeper_setup fresh s0 =
     (case status s0 of
        None \<Rightarrow> (Inl (RuntimeError ''Status not yet set.''), s0)
      | Some st \<Rightarrow>
          (case quadrature s0 of
             None \<Rightarrow> (Inl (RuntimeError ''Quadrature not yet set.''), s0)
           | Some q \<Rightarrow>
               let s1 = ml_clog INFO ''using as quadrature: '' s0;
                   num_nodes = get_num_nodes q;
                   s2 = s1\<lparr>states :=
                           generate (factory s1) fresh 0 (resize_ptr (num_nodes + 1) (states s1))\<rparr>;
                   s3 = s2\<lparr>previous_states :=
                           generate (factory s2) fresh (num_nodes + 1)
                             (resize_ptr (num_nodes + 1) (previous_states s2))\<rparr>;
                   s4 = s3\<lparr>end_state := Some (create (factory s3) (fresh (2 * (num_nodes + 1))))\<rparr>;
                   s5 = s4\<lparr>tau :=
                           generate (factory s4) fresh (2 * (num_nodes + 1) + 1)
                             (resize_ptr (num_nodes + 1) (tau s4))\<rparr>;
                   s6 = s5\<lparr>residuals :=
                           generate (factory s5) fresh (3 * (num_nodes + 1) + 1)
                             (resize_ptr (num_nodes + 1) (residuals s5))\<rparr>
               in (Inr (), s6)))"

text \<open>
  The base class's \<^verbatim>\<open>compute_residuals\<close> only throws; subclasses override it. In
  \<^verbatim>\<open>converged\<close> the call is virtual, so the model of \<^verbatim>\<open>converged\<close> takes the
  implementation as a parameter.
\<close>

definition compute_residuals :: "bool \<Rightarrow> Sweeper \<Rightarrow> (error + unit) \<times> Sweeper" where
  "compute_residuals only_last s = (Inl (RuntimeError ''computation of residuals''), s)"

definition integrate_end_state :: "real \<Rightarrow> Sweeper \<Rightarrow> (error + unit) \<times> Sweeper" where
  "integrate_end_state step s =
     (case quadrature s of
        None \<Rightarrow> (Inl (AssertionFailed ''this->get_quadrature() != nullptr''), s)
      | Some q \<Rightarrow>
          if right_is_node q then
            (case end_state s of
               None \<Rightarrow> (Inl (AssertionFailed ''this->get_end_state() != nullptr''), s)
             | Some e \<Rightarrow>
                 if \<not> length (states s) > 0
                 then (Inl (AssertionFailed ''this->get_states().size() > 0''), s)
                 else
                   (case last (states s) of
                      None \<Rightarrow> (Inl (UndefinedBehaviour ''null dereference: get_states().back()''), s)
                    | Some b \<Rightarrow> (Inr (), s\<lparr>end_state := Some (e\<lparr>data := data b\<rparr>)\<rparr>)))
          else
            (Inl (RuntimeError
               ''integration of end state for quadrature not including right time interval boundary''), s))"

text \<open>
  The tolerance test shared by both branches of \<^verbatim>\<open>converged\<close>; the branches differ
  in the two norms they compare (last node only, or the maxima stored in the status).
\<close>

definition tolerance_check :: "dbl \<Rightarrow> dbl \<Rightarrow> Sweeper \<Rightarrow> (error + bool) \<times> Sweeper" where
  "tolerance_check a r s =
     (if abs_residual_tol s > 0 \<or> rel_residual_tol s > 0 then
        (Inr (dbl_less a (Fin (abs_residual_tol s)) \<or> dbl_less r (Fin (rel_residual_tol s))), s)
      else
        (Inr False, ml_clog WARNING ''No residual tolerances set. Thus skipping convergence check.'' s))"

text \<open>One pass of the loop over the nodes \<open>m < num_residuals - 1\<close> of the full check.\<close>

definition residual_norms_at :: "nat \<Rightarrow> Sweeper \<Rightarrow> (error + unit) \<times> Sweeper" where
  "residual_norms_at m s =
     (case residuals s ! m of
        None \<Rightarrow> (Inl (AssertionFailed ''this->get_residuals()[m] != nullptr''), s)
      | Some r \<Rightarrow>
          let norm = Fin (norm0 r);
              s1 = s\<lparr>abs_res_norms := (abs_res_norms s)[m := norm]\<rparr>
          in if \<not> m < length (states s1)
             then (Inl (UndefinedBehaviour ''get_states()[m] out of range''), s1)
             else
               (case states s1 ! m of
                  None \<Rightarrow> (Inl (UndefinedBehaviour ''null dereference: get_states()[m]''), s1)
                | Some u \<Rightarrow>
                    (Inr (), s1\<lparr>rel_res_norms :=
                       (rel_res_norms s1)[m := dbl_div (abs_res_norms s1 ! m) (Fin (norm0 u))]\<rparr>)))"

text \<open>
  Lines 394--400 of \<^verbatim>\<open>converged\<close>: both norm vectors are resized to the number of
  residuals, and their last entries are computed from the last residual and the last state.
\<close>

definition converged_last_norms :: "Sweeper \<Rightarrow> (error + unit) \<times> Sweeper" where
  "converged_last_norms s1 =
     (let num_residuals = length (residuals s1);
          s2 = s1\<lparr>abs_res_norms := resize_dbl num_residuals (abs_res_norms s1)\<rparr>;
          s3 = s2\<lparr>rel_res_norms := resize_dbl num_residuals (rel_res_norms s2)\<rparr>
      in if residuals s3 = []
         then (Inl (UndefinedBehaviour ''get_residuals().back() of an empty vector''), s3)
         else
           (case last (residuals s3) of
              None \<Rightarrow> (Inl (AssertionFailed ''this->get_residuals().back() != nullptr''), s3)
            | Some r \<Rightarrow>
                let s4 = s3\<lparr>abs_res_norms :=
                           (abs_res_norms s3)[length (abs_res_norms s3) - 1 := Fin (norm0 r)]\<rparr>
                in if states s4 = []
                   then (Inl (UndefinedBehaviour ''get_states().back() of an empty vector''), s4)
                   else
                     (case last (states s4) of
                        None \<Rightarrow> (Inl (UndefinedBehaviour ''null dereference: get_states().back()''), s4)
                      | Some u \<Rightarrow>
                          (Inr (), s4\<lparr>rel_res_norms :=
                             (rel_res_norms s4)[length (rel_res_norms s4) - 1 :=
                                dbl_div (last (abs_res_norms s4)) (Fin (norm0 u))]\<rparr>))))"

text \<open>Lines 402--421: the preliminary check looks at the last entries only.\<close>

definition converged_pre_check :: "Sweeper \<Rightarrow> (error + bool) \<times> Sweeper" where
  "converged_pre_check s = tolerance_check (last (abs_res_norms s)) (last (rel_res_norms s)) s"

text \<open>
  Lines 430--431: the maxima of the two norm vectors are written to the status, one after
  the other, through the status pointer.
\<close>

definition store_max_norms :: "Sweeper \<Rightarrow> (error + unit) \<times> Sweeper" where
  "store_max_norms s =
     (case status s of
        None \<Rightarrow> (Inl (UndefinedBehaviour ''null dereference: status()''), s)
      | Some st \<Rightarrow>
          (case max_element (abs_res_norms s) of
             Inl e \<Rightarrow> (Inl e, s)
           | Inr a \<Rightarrow>
               (case max_element (rel_res_norms s) of
                  Inl e \<Rightarrow> (Inl e, s\<lparr>status := Some (st\<lparr>abs_res_norm := a\<rparr>)\<rparr>)
                | Inr r \<Rightarrow> (Inr (), s\<lparr>status := Some (st\<lparr>abs_res_norm := a, rel_res_norm := r\<rparr>)\<rparr>))))"

text \<open>Lines 423--452: the full check.\<close>

definition converged_full_check :: "Sweeper \<Rightarrow> (error + bool) \<times> Sweeper" where
  "converged_full_check s5 =
     (case for_loop [0..<length (residuals s5) - 1] residual_norms_at s5 of
        (Inl e, s6) \<Rightarrow> (Inl e, s6)
      | (Inr _, s6) \<Rightarrow>
          (case store_max_norms s6 of
             (Inl e, s7) \<Rightarrow> (Inl e, s7)
           | (Inr _, s7) \<Rightarrow>
               (case status s7 of
                  None \<Rightarrow> (Inl (UndefinedBehaviour ''null dereference: status()''), s7)
                | Some st \<Rightarrow> tolerance_check (abs_res_norm st) (rel_res_norm st) s7)))"

definition converged ::
  "(bool \<Rightarrow> Sweeper \<Rightarrow> (error + unit) \<times> Sweeper) \<Rightarrow> bool \<Rightarrow> Sweeper \<Rightarrow> (error + bool) \<times> Sweeper" where
  "converged compute_residuals_impl pre_check s0 =
     (case compute_residuals_impl pre_check s0 of
        (Inl e, s1) \<Rightarrow> (Inl e, s1)
      | (Inr _, s1) \<Rightarrow>
          (case converged_last_norms s1 of
             (Inl e, s5) \<Rightarrow> (Inl e, s5)
           | (Inr _, s5) \<Rightarrow>
               if pre_check then converged_pre_check s5 else converged_full_check s5))"

section \<open>The van der Pol convergence test (\<^verbatim>\<open>tests/examples/vanderpol/test_vdp_zeronu_conv.cpp\<close>)\<close>

datatype QuadratureType = GaussLobatto | GaussLegendre | GaussRadau | ClenshawCurtis | Uniform

record VdPConvergenceTest =
  niters :: nat
  Tend :: real
  nsteps :: "nat list"
  nnodes_in_call :: nat

text \<open>
  \<^verbatim>\<open>set_parameters\<close>, by node type. The counts are \<^verbatim>\<open>size_t\<close>: the subtractions wrap
  at \<open>2^64\<close>.
\<close>

definition size_t_sub :: "nat \<Rightarrow> nat \<Rightarrow> nat" where
  "size_t_sub a b = (a + 2 ^ 64 - b) mod 2 ^ 64"

fun set_parameters :: "QuadratureType \<Rightarrow> nat \<Rightarrow> VdPConvergenceTest" where
  "set_parameters GaussLobatto nnodes =
     \<lparr>niters = size_t_sub (2 * nnodes mod 2 ^ 64) 2, Tend = 66 / 100, nsteps = [7, 9, 11, 13],
      nnodes_in_call = nnodes\<rparr>"
| "set_parameters GaussLegendre nnodes =
     \<lparr>niters = 2 * nnodes mod 2 ^ 64, Tend = 88 / 100, nsteps = [7, 9, 11, 13],
      nnodes_in_call = (nnodes + 2) mod 2 ^ 64\<rparr>"
| "set_parameters GaussRadau nnodes =
     \<lparr>niters = size_t_sub (2 * nnodes mod 2 ^ 64) 1, Tend = 88 / 100, nsteps = [7, 9, 11, 13],
      nnodes_in_call = (nnodes + 1) mod 2 ^ 64\<rparr>"
| "set_parameters ClenshawCurtis nnodes =
     \<lparr>niters = nnodes, Tend = 65 / 100, nsteps = [25, 35, 45, 55],
      nnodes_in_call = (nnodes + 1) mod 2 ^ 64\<rparr>"
| "set_parameters Uniform nnodes =
     \<lparr>niters = nnodes, Tend = 65 / 100, nsteps = [25, 35, 45, 55], nnodes_in_call = nnodes\<rparr>"

text \<open>
  The lower bound handed to \<^verbatim>\<open>Ge(...)\<close> in \<^verbatim>\<open>TEST_P(VdPConvergenceTest, AllNodes)\<close>,
  with the precedence of the C++ expression: \<^verbatim>\<open>0.95* 2 * nnodes - 2\<close> is
  \<open>((0.95 * 2) * nnodes) - 2\<close>.
\<close>

fun AllNodes_bound :: "QuadratureType \<Rightarrow> nat \<Rightarrow> real" where
  "AllNodes_bound GaussLobatto nnodes = 95 / 100 * 2 * real nnodes - 2"
| "AllNodes_bound GaussLegendre nnodes = 99 / 100 * 2 * real nnodes"
| "AllNodes_bound GaussRadau nnodes = 99 / 100 * 2 * real nnodes - 1"
| "AllNodes_bound ClenshawCurtis nnodes = 99 / 100 * real nnodes"
| "AllNodes_bound Uniform nnodes = 99 / 100 * real nnodes"

text \<open>\<^verbatim>\<open>EXPECT_THAT(convrate[i], Ge(bound))\<close> for one measured rate.\<close>

definition AllNodes_accepts :: "QuadratureType \<Rightarrow> nat \<Rightarrow> real \<Rightarrow> bool" where
  "AllNodes_accepts nodetype nnodes convrate = (convrate \<ge> AllNodes_bound nodetype nnodes)"

section \<open>Point-to-point communicator (\<^verbatim>\<open>comm/mpi_p2p_impl.hpp\<close>)\<close>

subsection \<open>The message-passing library\<close>

text \<open>
  The MPI library is an external collaborator. A request handle is either
  \<^verbatim>\<open>MPI_REQUEST_NULL\<close> or names one non-blocking operation that has been started and not yet
  completed by a wait: the library's table of such operations is \<open>in_flight\<close>. The error
  code a call returns is not determined by the program; it is an argument of the model of
  each call (\<open>MPI_SUCCESS\<close> is \<open>0\<close>). A call that returns an error starts or completes
  nothing.
\<close>

datatype MPI_Request = MPI_REQUEST_NULL | Active nat

datatype operation = Isend | Irecv

type_synonym request_index = "int \<times> int"

record mpi_library =
  next_handle :: nat
  in_flight :: "(nat \<times> operation \<times> request_index) list"

definition MPI_SUCCESS :: int where
  "MPI_SUCCESS = 0"

definition MPI_Wait :: "int \<Rightarrow> MPI_Request \<Rightarrow> mpi_library \<Rightarrow> int \<times> MPI_Request \<times> mpi_library" where
  "MPI_Wait err req lib =
     (if err \<noteq> MPI_SUCCESS then (err, req, lib)
      else case req of
             MPI_REQUEST_NULL \<Rightarrow> (MPI_SUCCESS, MPI_REQUEST_NULL, lib)
           | Active h \<Rightarrow>
               (MPI_SUCCESS, MPI_REQUEST_NULL,
                lib\<lparr>in_flight := filter (\<lambda>(h', _). h' \<noteq> h) (in_flight lib)\<rparr>))"

definition MPI_Start ::
  "operation \<Rightarrow> int \<Rightarrow> request_index \<Rightarrow> MPI_Request \<Rightarrow> mpi_library \<Rightarrow> int \<times> MPI_Request \<times> mpi_library" where
  "MPI_Start kind err idx req lib =
     (if err \<noteq> MPI_SUCCESS then (err, req, lib)
      else (MPI_SUCCESS, Active (next_handle lib),
            lib\<lparr>next_handle := next_handle lib + 1,
                in_flight := in_flight lib @ [(next_handle lib, kind, idx)]\<rparr>))"

definition MPI_Isend :: "int \<Rightarrow> request_index \<Rightarrow> MPI_Request \<Rightarrow> mpi_library \<Rightarrow> int \<times> MPI_Request \<times> mpi_library" where
  "MPI_Isend = MPI_Start Isend"

definition MPI_Irecv :: "int \<Rightarrow> request_index \<Rightarrow> MPI_Request \<Rightarrow> mpi_library \<Rightarrow> int \<times> MPI_Request \<times> mpi_library" where
  "MPI_Irecv = MPI_Start Irecv"

subsection \<open>The request map\<close>

text \<open>
  \<^verbatim>\<open>std::map<pair<int, int>, MPI_Request>\<close> as a list of entries in ascending key order
  (pairs are ordered lexicographically). An iterator is the key of the node it points to,
  or the end iterator.
\<close>

type_synonym request_map = "(request_index \<times> MPI_Request) list"

definition map_find :: "request_index \<Rightarrow> request_map \<Rightarrow> MPI_Request option" where
  "map_find k m = map_of m k"

definition map_insert :: "request_index \<Rightarrow> MPI_Request \<Rightarrow> request_map \<Rightarrow> request_map" where
  "map_insert k v m = (if map_find k m \<noteq> None then m else insort_key fst (k, v) m)"

definition map_assign :: "request_index \<Rightarrow> MPI_Request \<Rightarrow> request_map \<Rightarrow> request_map" where
  "map_assign k v m = map (\<lambda>(k', v'). if k' = k then (k', v) else (k', v')) m"

definition map_erase :: "request_index \<Rightarrow> request_map \<Rightarrow> request_map" where
  "map_erase k m = filter (\<lambda>(k', _). k' \<noteq> k) m"

datatype map_iterator = At request_index | End

definition map_begin :: "request_map \<Rightarrow> map_iterator" where
  "map_begin m = (case m of [] \<Rightarrow> End | (k, _) # _ \<Rightarrow> At k)"

text \<open>
  Erasing a node invalidates the iterators that point to it, and the C++ standard leaves
  the increment of an invalidated iterator undefined: what \<^verbatim>\<open>++it\<close> does then is not
  determined by the program. In the model it is a parameter, \<open>stale_next\<close>, of the type
  below: from the key of the erased node and the map after the erasure it gives the
  iterator that the increment yields, or the failure the increment ends in.
\<close>

type_synonym stale_increment = "request_index \<Rightarrow> request_map \<Rightarrow> error + map_iterator"

subsection \<open>The communicator\<close>

record MpiP2P =
  requests :: request_map
  mpi :: mpi_library

text \<open>The constructor: no request stored, nothing in flight.\<close>

definition MpiP2P_new :: MpiP2P where
  "MpiP2P_new = \<lparr>requests = [], mpi = \<lparr>next_handle = 0, in_flight = []\<rparr>\<rparr>"

definition check_mpi_error :: "int \<Rightarrow> error + unit" where
  "check_mpi_error err_code =
     (if err_code \<noteq> MPI_SUCCESS then Inl (RuntimeError ''MPI encountered an error'') else Inr ())"

text \<open>
  \<^verbatim>\<open>MPI_Wait(&(this->_requests[request_index]), &stat)\<close> followed by
  \<^verbatim>\<open>check_mpi_error(err)\<close>: the wait works on the stored handle in place.
\<close>

definition wait_stored :: "int \<Rightarrow> request_index \<Rightarrow> MPI_Request \<Rightarrow> MpiP2P \<Rightarrow> (error + unit) \<times> MpiP2P" where
  "wait_stored wait_err k req c =
     (case MPI_Wait wait_err req (mpi c) of
        (err, req', lib') \<Rightarrow>
          (check_mpi_error err, c\<lparr>requests := map_assign k req' (requests c), mpi := lib'\<rparr>))"

text \<open>
  \<^verbatim>\<open>cleanup()\<close>: a range-based \<^verbatim>\<open>for\<close> over the map whose body waits on the entry and then
  erases it by key. \<open>wait_err\<close> gives the code that \<^verbatim>\<open>MPI_Wait\<close> returns for an entry. The
  loop is \<^verbatim>\<open>for (it = begin(); it != end(); ++it)\<close>; the increment runs after the body has
  erased the node \<open>it\<close> points to, so every increment of the loop is one of an invalidated
  iterator and its result is \<open>stale_next\<close>'s. The keys of the erased nodes whose iterator
  the loop has incremented are collected in \<open>stale\<close> and returned with the result. An
  iterator that does not point to a node of the map cannot be dereferenced: the model does
  not follow a run beyond such a read.
\<close>

function cleanup_loop ::
  "stale_increment \<Rightarrow> (request_index \<Rightarrow> int) \<Rightarrow> map_iterator \<Rightarrow> request_index list \<Rightarrow> MpiP2P
     \<Rightarrow> (error + unit) \<times> MpiP2P \<times> request_index list" where
  "cleanup_loop stale_next wait_err it stale c =
     (case it of
        End \<Rightarrow> (Inr (), c, stale)
      | At k \<Rightarrow>
          (case map_find k (requests c) of
             None \<Rightarrow> (Inl (UndefinedBehaviour ''dereference of an invalidated map iterator''), c, stale)
           | Some req \<Rightarrow>
               (case wait_stored (wait_err k) k req c of
                  (Inl e, c1) \<Rightarrow> (Inl e, c1, stale)
                | (Inr _, c1) \<Rightarrow>
                    if map_find k (requests c1) \<noteq> Some MPI_REQUEST_NULL
                    then (Inl (AssertionFailed ''req.second == MPI_REQUEST_NULL''), c1, stale)
                    else
                      let c2 = c1\<lparr>requests := map_erase k (requests c1)\<rparr>
                      in (case stale_next k (requests c2) of
                            Inl e \<Rightarrow> (Inl e, c2, stale @ [k])
                          | Inr it' \<Rightarrow> cleanup_loop stale_next wait_err it' (stale @ [k]) c2))))"
  by pat_completeness auto
termination
  apply (relation "measure (\<lambda>(stale_next, wait_err, it, stale, c). length (requests c))")
   apply simp
  apply (simp add: map_erase_def)
  subgoal premises p for stale_next wait_err it c k req r c1 c2 it'
  proof -
    have l: "length (requests c1) = length (requests c)"
      using p(3) [symmetric] by (auto simp: wait_stored_def map_assign_def split: prod.splits)
    have m: "(k, MPI_REQUEST_NULL) \<in> set (requests c1)"
      using p(5) by (simp add: map_find_def map_of_SomeD)
    have "length (filter (\<lambda>(k', _). k' \<noteq> k) (requests c1)) < length (requests c1)"
      by (rule length_filter_less [OF m]) simp
    then show ?thesis using l by simp
  qed
  done

declare cleanup_loop.simps [simp del]

definition cleanup ::
  "stale_increment \<Rightarrow> (request_index \<Rightarrow> int) \<Rightarrow> MpiP2P \<Rightarrow> (error + unit) \<times> MpiP2P \<times> request_index list" where
  "cleanup stale_next wait_err c =
     (case cleanup_loop stale_next wait_err (map_begin (requests c)) [] c of
        (Inl e, c', stale) \<Rightarrow> (Inl e, c', stale)
      | (Inr _, c', stale) \<Rightarrow>
          if length (requests c') = 0 then (Inr (), c', stale)
          else (Inl (AssertionFailed ''this->_requests.size() == 0''), c', stale))"

text \<open>
  Lines 161--174, repeated verbatim in \<^verbatim>\<open>isend\<close>, \<^verbatim>\<open>isend_status\<close>, \<^verbatim>\<open>irecv\<close> and
  \<^verbatim>\<open>irecv_status\<close>: if the index has a stored request, wait on it; otherwise insert a null
  request under the index.
\<close>

definition wait_or_insert :: "int \<Rightarrow> request_index \<Rightarrow> MpiP2P \<Rightarrow> (error + unit) \<times> MpiP2P" where
  "wait_or_insert wait_err request_index c =
     (case map_find request_index (requests c) of
        Some req \<Rightarrow> wait_stored wait_err request_index req c
      | None \<Rightarrow>
          (Inr (), c\<lparr>requests := map_insert request_index MPI_REQUEST_NULL (requests c)\<rparr>))"

text \<open>
  The start of the new operation writes its handle through
  \<^verbatim>\<open>&(this->_requests[request_index])\<close>. The entry exists at this point: the block before
  has found or inserted it. On a missing index \<^verbatim>\<open>operator[]\<close> would create a
  value-initialised handle, which is no valid request.
\<close>

definition start_stored ::
  "(int \<Rightarrow> request_index \<Rightarrow> MPI_Request \<Rightarrow> mpi_library \<Rightarrow> int \<times> MPI_Request \<times> mpi_library)
    \<Rightarrow> int \<Rightarrow> request_index \<Rightarrow> MpiP2P \<Rightarrow> (error + unit) \<times> MpiP2P" where
  "start_stored mpi_call start_err k c =
     (case map_find k (requests c) of
        None \<Rightarrow> (Inl (UndefinedBehaviour ''start on a value-initialised request handle''), c)
      | Some req \<Rightarrow>
          (case mpi_call start_err k req (mpi c) of
             (err, req', lib') \<Rightarrow>
               (check_mpi_error err, c\<lparr>requests := map_assign k req' (requests c), mpi := lib'\<rparr>)))"

definition isend :: "int \<Rightarrow> int \<Rightarrow> int \<Rightarrow> int \<Rightarrow> MpiP2P \<Rightarrow> (error + unit) \<times> MpiP2P" where
  "isend wait_err start_err dest_rank tag c =
     (let request_index = (dest_rank, tag) in
      case wait_or_insert wait_err request_index c of
        (Inl e, c1) \<Rightarrow> (Inl e, c1)
      | (Inr _, c1) \<Rightarrow> start_stored MPI_Isend start_err request_index c1)"

definition isend_status :: "int \<Rightarrow> int \<Rightarrow> int \<Rightarrow> int \<Rightarrow> MpiP2P \<Rightarrow> (error + unit) \<times> MpiP2P" where
  "isend_status wait_err start_err dest_rank tag c =
     (let request_index = (dest_rank, tag) in
      case wait_or_insert wait_err request_index c of
        (Inl e, c1) \<Rightarrow> (Inl e, c1)
      | (Inr _, c1) \<Rightarrow> start_stored MPI_Isend start_err request_index c1)"

definition irecv :: "int \<Rightarrow> int \<Rightarrow> int \<Rightarrow> int \<Rightarrow> MpiP2P \<Rightarrow> (error + unit) \<times> MpiP2P" where
  "irecv wait_err start_err src_rank tag c =
     (let request_index = (src_rank, tag) in
      case wait_or_insert wait_err request_index c of
        (Inl e, c1) \<Rightarrow> (Inl e, c1)
      | (Inr _, c1) \<Rightarrow> start_stored MPI_Irecv start_err request_index c1)"

definition irecv_status :: "int \<Rightarrow> int \<Rightarrow> int \<Rightarrow> int \<Rightarrow> MpiP2P \<Rightarrow> (error + unit) \<times> MpiP2P" where
  "irecv_status wait_err start_err src_rank tag c =
     (let request_index = (src_rank, tag) in
      case wait_or_insert wait_err request_index c of
        (Inl e, c1) \<Rightarrow> (Inl e, c1)
      | (Inr _, c1) \<Rightarrow> start_stored MPI_Irecv start_err request_index c1)"

text \<open>
  The states a communicator can be in after any sequence of non-blocking sends and
  receives, whatever the library's error codes were and whether or not a call threw.
\<close>

inductive reachable :: "MpiP2P \<Rightarrow> bool" where
  reachable_new: "reachable MpiP2P_new"
| reachable_isend: "reachable c \<Longrightarrow> reachable (snd (isend wait_err start_err dest_rank tag c))"
| reachable_isend_status:
    "reachable c \<Longrightarrow> reachable (snd (isend_status wait_err start_err dest_rank tag c))"
| reachable_irecv: "reachable c \<Longrightarrow> reachable (snd (irecv wait_err start_err src_rank tag c))"
| reachable_irecv_status:
    "reachable c \<Longrightarrow> reachable (snd (irecv_status wait_err start_err src_rank tag c))"

section \<open>Spectral transfer in 1D (\<^verbatim>\<open>transfer/spectral_1d_impl.hpp\<close>)\<close>

subsection \<open>The FFT workspaces\<close>

text \<open>
  Modelled from the spec: the FFT class (\<^verbatim>\<open>pfasst/contrib/fft.hpp\<close>) is not part of the
  sources. It keeps one complex buffer \<^verbatim>\<open>z\<close> per problem size; \<^verbatim>\<open>forward(x)\<close> copies the
  data of \<open>x\<close> into the buffer of its size and replaces it by its discrete Fourier
  transform, \<^verbatim>\<open>backward(x)\<close> replaces the buffer of the size of \<open>x\<close> by its inverse
  transform and copies the real parts into \<open>x\<close>. Neither transform is normalised (a
  forward transform followed by a backward one multiplies by the size), and values are
  exact complex numbers. The pointers \<^verbatim>\<open>coarse_z\<close> and \<^verbatim>\<open>fine_z\<close> are the sizes that
  select the buffers, so that two pointers to the buffer of one size are aliases.
\<close>

type_synonym FFT = "nat \<Rightarrow> complex list"

definition dft_forward :: "complex list \<Rightarrow> complex list" where
  "dft_forward z =
     map (\<lambda>k. \<Sum>n < length z. z ! n * cis (- (2 * pi * real k * real n / real (length z))))
       [0..<length z]"

definition dft_backward :: "complex list \<Rightarrow> complex list" where
  "dft_backward z =
     map (\<lambda>j. \<Sum>k < length z. z ! k * cis (2 * pi * real j * real k / real (length z)))
       [0..<length z]"

definition forward :: "Encapsulation \<Rightarrow> FFT \<Rightarrow> FFT" where
  "forward x fft = fft(length (data x) := dft_forward (map complex_of_real (data x)))"

definition backward :: "Encapsulation \<Rightarrow> FFT \<Rightarrow> Encapsulation \<times> FFT" where
  "backward x fft =
     (let z = dft_backward (fft (length (data x)))
      in (x\<lparr>data := map Re z\<rparr>, fft(length (data x) := z)))"

definition z_read :: "FFT \<Rightarrow> nat \<Rightarrow> nat \<Rightarrow> complex" where
  "z_read fft n i = fft n ! i"

definition z_write :: "FFT \<Rightarrow> nat \<Rightarrow> nat \<Rightarrow> complex \<Rightarrow> FFT" where
  "z_write fft n i v = fft(n := (fft n)[i := v])"

subsection \<open>Interpolation and restriction\<close>

definition interpolate_data :: "FFT \<Rightarrow> Encapsulation \<Rightarrow> Encapsulation \<Rightarrow> error + Encapsulation \<times> FFT" where
  "interpolate_data fft coarse fine =
     (let coarse_ndofs = length (data coarse);
          fine_ndofs = length (data fine)
      in if \<not> coarse_ndofs > 0 then Inl (AssertionFailed ''coarse_ndofs > 0'')
         else if \<not> fine_ndofs \<ge> coarse_ndofs then Inl (AssertionFailed ''fine_ndofs >= coarse_ndofs'')
         else
           let fft1 = forward coarse fft;
               coarse_z = coarse_ndofs;
               fine_z = fine_ndofs;
               fft2 = fold (\<lambda>i w. z_write w fine_z i 0) [0..<fine_ndofs] fft1;
               c = complex_of_real (1 / real coarse_ndofs);
               fft3 = fold (\<lambda>i w. z_write w fine_z i (c * z_read w coarse_z i))
                        [0..<coarse_ndofs div 2] fft2;
               fft4 = fold (\<lambda>i w. z_write w fine_z (fine_ndofs - coarse_ndofs div 2 + i)
                                     (c * z_read w coarse_z (coarse_ndofs div 2 + i)))
                        [1..<coarse_ndofs div 2] fft3
           in Inr (backward fine fft4))"

definition restrict_data :: "Encapsulation \<Rightarrow> Encapsulation \<Rightarrow> error + Encapsulation" where
  "restrict_data fine coarse =
     (let coarse_ndofs = length (data coarse);
          fine_ndofs = length (data fine)
      in if \<not> coarse_ndofs > 0 then Inl (AssertionFailed ''coarse_ndofs > 0'')
         else if \<not> fine_ndofs \<ge> coarse_ndofs then Inl (AssertionFailed ''fine_ndofs >= coarse_ndofs'')
         else
           let factor = fine_ndofs div coarse_ndofs
           in Inr (coarse\<lparr>data := fold (\<lambda>i d. d[i := data fine ! (factor * i)])
                                      [0..<coarse_ndofs] (data coarse)\<rparr>))"

section \<open>Spectral transfer in 3D (\<^verbatim>\<open>contrib/spectral_transfer_3d_impl.hpp\<close>)\<close>












section \<open>Formulas in the words of the specification\<close>

text \<open>
  The spec's formula for the end state when the right endpoint is not a node, in its own
  words: \<open>states[0] + dt \<cdot> \<Sum>j. b_vec[j] \<cdot> (f_expl[j] + f_impl[j])\<close>, componentwise.
\<close>

definition spec_integrated_end_state ::
  "real \<Rightarrow> real list \<Rightarrow> real list \<Rightarrow> real list list \<Rightarrow> real list list \<Rightarrow> real list" where
  "spec_integrated_end_state step b_vec u0 f_expl f_impl =
     map (\<lambda>i. u0 ! i + step * (\<Sum>j < length b_vec. b_vec ! j * (f_expl ! j ! i + f_impl ! j ! i)))
       [0..<length u0]"

text \<open>
  The tag uniqueness invariant in the spec's words: no two requests in flight share the
  same \<open>(peer, tag)\<close> pair.
\<close>

definition no_shared_index :: "MpiP2P \<Rightarrow> bool" where
  "no_shared_index c = distinct (map (\<lambda>(h, kind, idx). idx) (in_flight (mpi c)))"

text \<open>
  The invariant: every operation in flight is the one stored in the map under its index,
  no two operations in flight share an index, and every handle, stored or in flight, has
  been issued.
\<close>

definition tracked :: "MpiP2P \<Rightarrow> bool" where
  "tracked c \<longleftrightarrow>
     (\<forall>h kind idx. (h, kind, idx) \<in> set (in_flight (mpi c)) \<longrightarrow>
          map_find idx (requests c) = Some (Active h) \<and> h < next_handle (mpi c))
     \<and> no_shared_index c
     \<and> (\<forall>k h. (k, Active h) \<in> set (requests c) \<longrightarrow> h < next_handle (mpi c))"


text \<open>
  The part of a coarse vector that the interpolation drops: its component along the
  alternating vector \<open>(1, -1, 1, -1, \<dots>)\<close> (the Nyquist mode).
\<close>

definition alternating_sum :: "real list \<Rightarrow> real" where
  "alternating_sum c = (\<Sum>n < length c. (- 1) ^ n * c ! n)"

definition without_nyquist :: "real list \<Rightarrow> real list" where
  "without_nyquist c =
     map (\<lambda>m. c ! m - (- 1) ^ m * alternating_sum c / real (length c)) [0..<length c]"

text \<open>
  The round trip of the claim: interpolate the coarse data to the fine grid, then restrict
  the result back into the coarse container.
\<close>

definition interpolate_then_restrict :: "FFT \<Rightarrow> Encapsulation \<Rightarrow> Encapsulation \<Rightarrow> error + Encapsulation" where
  "interpolate_then_restrict fft coarse fine =
     (case interpolate_data fft coarse fine of
        Inl e \<Rightarrow> Inl e
      | Inr (fine', fft') \<Rightarrow> restrict_data fine' coarse)"


text \<open>
  The acceptance bound of the Gauss-Lobatto convergence scenario in the spec's words:
  \<open>0.95 \<cdot> (2M - 2)\<close>.
\<close>

definition spec_lobatto_bound :: "nat \<Rightarrow> real" where
  "spec_lobatto_bound M = 95 / 100 * (2 * real M - 2)"
section \<open>Concrete inputs\<close>

text \<open>Sweepers, quadratures and a status used to instantiate the theorems below.\<close>

definition lobatto3 :: IQuadrature where
  "lobatto3 = \<lparr>nodes = [0, 1 / 2, 1], right_is_node = True\<rparr>"

definition status0 :: Status where
  "status0 = \<lparr>time = 0, dt = 1 / 10, t_end = 1, iteration = 0, max_iterations = 4,
     abs_res_norm = Fin 0, rel_res_norm = Fin 0\<rparr>"

definition sweeper_attached :: Sweeper where
  "sweeper_attached =
     Sweeper_new\<lparr>status := Some status0, quadrature := Some lobatto3, factory := \<lparr>factory_size = 2\<rparr>\<rparr>"

text \<open>Fresh storage that holds the value \<open>1\<close> everywhere: not zero until it is zeroed.\<close>

definition storage_of_ones :: "nat \<Rightarrow> nat \<Rightarrow> real" where
  "storage_of_ones j i = 1"

definition sweeper_without_quadrature :: Sweeper where
  "sweeper_without_quadrature = Sweeper_new\<lparr>status := Some status0\<rparr>"

definition legendre1 :: IQuadrature where
  "legendre1 = \<lparr>nodes = [1 / 2], right_is_node = False\<rparr>"

definition sweeper_legendre :: Sweeper where
  "sweeper_legendre =
     Sweeper_new\<lparr>status := Some status0, quadrature := Some legendre1,
       factory := \<lparr>factory_size = 1\<rparr>,
       states := [Some \<lparr>data = [1]\<rparr>, Some \<lparr>data = [1]\<rparr>],
       previous_states := [Some \<lparr>data = [1]\<rparr>, Some \<lparr>data = [1]\<rparr>],
       end_state := Some \<lparr>data = [0]\<rparr>,
       tau := [Some \<lparr>data = [0]\<rparr>, Some \<lparr>data = [0]\<rparr>],
       residuals := [Some \<lparr>data = [0]\<rparr>, Some \<lparr>data = [0]\<rparr>]\<rparr>"

definition sweeper_lobatto :: Sweeper where
  "sweeper_lobatto =
     Sweeper_new\<lparr>status := Some status0, quadrature := Some lobatto3,
       states := [Some \<lparr>data = [1]\<rparr>, Some \<lparr>data = [2]\<rparr>, Some \<lparr>data = [3]\<rparr>, Some \<lparr>data = [4]\<rparr>],
       end_state := Some \<lparr>data = [0]\<rparr>\<rparr>"

text \<open>
  An implementation of the virtual \<^verbatim>\<open>compute_residuals\<close> for instantiation: the residuals
  stored in the sweeper are already up to date, and it changes nothing.
\<close>

definition residuals_up_to_date :: "bool \<Rightarrow> Sweeper \<Rightarrow> (error + unit) \<times> Sweeper" where
  "residuals_up_to_date only_last s = (Inr (), s)"

definition sweeper_residuals :: Sweeper where
  "sweeper_residuals =
     Sweeper_new\<lparr>status := Some status0, quadrature := Some legendre1,
       states := [Some \<lparr>data = [1, -2]\<rparr>, Some \<lparr>data = [4, 1]\<rparr>],
       residuals := [Some \<lparr>data = [0, 1]\<rparr>, Some \<lparr>data = [-1 / 2, 0]\<rparr>],
       abs_residual_tol := 2\<rparr>"






text \<open>A communicator with two sends pending, to ranks 1 and 2 with tag 0.\<close>

definition comm_two_pending :: MpiP2P where
  "comm_two_pending =
     snd (isend MPI_SUCCESS MPI_SUCCESS 2 0 (snd (isend MPI_SUCCESS MPI_SUCCESS 1 0 MpiP2P_new)))"

definition no_mpi_errors :: "request_index \<Rightarrow> int" where
  "no_mpi_errors k = MPI_SUCCESS"

text \<open>
  The same communicator once the first request has been waited on and erased, and once
  both have.
\<close>

definition comm_second_pending :: MpiP2P where
  "comm_second_pending =
     \<lparr>requests = [((2, 0), Active 1)],
      mpi = \<lparr>next_handle = 2, in_flight = [(1, Isend, (2, 0))]\<rparr>\<rparr>"

definition comm_none_pending :: MpiP2P where
  "comm_none_pending = \<lparr>requests = [], mpi = \<lparr>next_handle = 2, in_flight = []\<rparr>\<rparr>"

text \<open>
  One result of incrementing an invalidated iterator: while the memory of the erased node
  is intact, its links still lead to the node that followed it in key order, or to the end
  of the map.
\<close>

definition increment_to_successor :: stale_increment where
  "increment_to_successor k m =
     (case dropWhile (\<lambda>(k', _). k' \<le> k) m of [] \<Rightarrow> Inr End | (k', _) # _ \<Rightarrow> Inr (At k'))"

text \<open>A communicator with one send pending, to rank 1 with tag 5.\<close>

definition comm_one_pending :: MpiP2P where
  "comm_one_pending = snd (isend MPI_SUCCESS MPI_SUCCESS 1 5 MpiP2P_new)"









text \<open>FFT workspaces whose buffers hold zeros.\<close>

definition fft_zeroed :: FFT where
  "fft_zeroed n = replicate n 0"

section \<open>Properties of the sweeper\<close>

subsection \<open>Allocation in \<^verbatim>\<open>setup\<close>\<close>

lemma create_data: "data (create f uninitialised) = replicate (factory_size f) 0"
  by (simp add: create_def Encapsulation_of_size_def zero_def map_replicate_const)

lemma length_generate_resize: "length (generate f fresh k (resize_ptr n xs)) = n"
  by (simp add: generate_def resize_ptr_def)

lemma set_generate: "e \<in> set (generate f fresh k xs) \<Longrightarrow> \<exists>j. e = Some (create f (fresh j))"
  by (auto simp: generate_def)

lemma Sweeper_setup_ok:
  assumes "status s = Some st" and "quadrature s = Some q"
  shows "Sweeper_setup fresh s =
    (Inr (), s\<lparr>logged := logged s @ [(INFO, ''using as quadrature: '')],
       states := generate (factory s) fresh 0 (resize_ptr (get_num_nodes q + 1) (states s)),
       previous_states := generate (factory s) fresh (get_num_nodes q + 1)
          (resize_ptr (get_num_nodes q + 1) (previous_states s)),
       end_state := Some (create (factory s) (fresh (2 * (get_num_nodes q + 1)))),
       tau := generate (factory s) fresh (2 * (get_num_nodes q + 1) + 1)
          (resize_ptr (get_num_nodes q + 1) (tau s)),
       residuals := generate (factory s) fresh (3 * (get_num_nodes q + 1) + 1)
          (resize_ptr (get_num_nodes q + 1) (residuals s))\<rparr>)"
  using assms by (simp add: Sweeper_setup_def ml_clog_def Let_def)

text \<open>
  Claim C7. When a status and a quadrature with \<open>M\<close> nodes are attached, \<^verbatim>\<open>setup()\<close>
  succeeds, whatever the freshly allocated storage holds, and afterwards \<open>states\<close>,
  \<open>previous_states\<close>, \<open>tau\<close> and \<open>residuals\<close> have exactly \<open>M + 1\<close> entries each; every
  entry, and \<open>end_state\<close>, is a non-null container (of the factory's size) all of whose
  values are zero.
\<close>

theorem setup_allocates_zeroed_containers:
  assumes "status s = Some st" and "quadrature s = Some q"
  shows "\<exists>s'. Sweeper_setup fresh s = (Inr (), s')
    \<and> length (states s') = get_num_nodes q + 1
    \<and> length (previous_states s') = get_num_nodes q + 1
    \<and> length (tau s') = get_num_nodes q + 1
    \<and> length (residuals s') = get_num_nodes q + 1
    \<and> (\<forall>p \<in> set (states s') \<union> set (previous_states s') \<union> set (tau s')
              \<union> set (residuals s') \<union> {end_state s'}.
          \<exists>c. p = Some c \<and> length (data c) = factory_size (factory s) \<and> (\<forall>x \<in> set (data c). x = 0))"
proof -
  show ?thesis
    unfolding Sweeper_setup_ok [OF assms]
    by (intro exI conjI refl ballI) (auto simp: length_generate_resize create_data dest!: set_generate)
qed

theorem setup_allocates_zeroed_containers_witness:
  "status sweeper_attached = Some status0 \<and> quadrature sweeper_attached = Some lobatto3 \<and>
   (\<exists>s'. Sweeper_setup storage_of_ones sweeper_attached = (Inr (), s')
    \<and> length (states s') = get_num_nodes lobatto3 + 1
    \<and> length (previous_states s') = get_num_nodes lobatto3 + 1
    \<and> length (tau s') = get_num_nodes lobatto3 + 1
    \<and> length (residuals s') = get_num_nodes lobatto3 + 1
    \<and> (\<forall>p \<in> set (states s') \<union> set (previous_states s') \<union> set (tau s')
              \<union> set (residuals s') \<union> {end_state s'}.
          \<exists>c. p = Some c \<and> length (data c) = factory_size (factory sweeper_attached)
             \<and> (\<forall>x \<in> set (data c). x = 0)))"
proof -
  have a: "status sweeper_attached = Some status0"
    and b: "quadrature sweeper_attached = Some lobatto3"
    by (simp_all add: sweeper_attached_def Sweeper_new_def)
  show ?thesis
    using a b setup_allocates_zeroed_containers [OF a b, of storage_of_ones] by blast
qed

subsection \<open>Use before \<^verbatim>\<open>setup\<close>\<close>

text \<open>
  Claim C8. \<^verbatim>\<open>setup()\<close> without an attached status or without an attached quadrature
  throws a runtime error and leaves the sweeper as it was (no vector has been resized);
  \<^verbatim>\<open>initial_state()\<close> and \<^verbatim>\<open>get_initial_state()\<close> on a sweeper whose \<open>states\<close> are
  still empty throw a runtime error and leave the state vectors as they were.
\<close>

theorem use_before_setup_throws:
  "(status s = None \<or> quadrature s = None \<longrightarrow>
      (\<exists>msg. Sweeper_setup fresh s = (Inl (RuntimeError msg), s)))
   \<and> (states t = [] \<longrightarrow>
      fst (initial_state t) = Inl (RuntimeError ''sweeper not setup before querying initial state'')
      \<and> fst (get_initial_state t) = Inl (RuntimeError ''sweeper not setup before querying initial state'')
      \<and> states (snd (initial_state t)) = [] \<and> states (snd (get_initial_state t)) = [])"
  by (auto simp: Sweeper_setup_def initial_state_def get_initial_state_def ml_clog_def
           split: option.splits)

theorem use_before_setup_throws_witness:
  "(status sweeper_without_quadrature = None \<or> quadrature sweeper_without_quadrature = None)
   \<and> Sweeper_setup storage_of_ones sweeper_without_quadrature =
        (Inl (RuntimeError ''Quadrature not yet set.''), sweeper_without_quadrature)
   \<and> Sweeper_setup storage_of_ones Sweeper_new = (Inl (RuntimeError ''Status not yet set.''), Sweeper_new)
   \<and> states Sweeper_new = []
   \<and> fst (initial_state Sweeper_new) =
        Inl (RuntimeError ''sweeper not setup before querying initial state'')
   \<and> fst (get_initial_state Sweeper_new) =
        Inl (RuntimeError ''sweeper not setup before querying initial state'')
   \<and> states (snd (initial_state Sweeper_new)) = []"
proof -
  have q: "status sweeper_without_quadrature = None \<or> quadrature sweeper_without_quadrature = None"
    and st: "status sweeper_without_quadrature = Some status0"
    and st0: "status Sweeper_new = None"
    and e: "states Sweeper_new = []"
    by (simp_all add: sweeper_without_quadrature_def Sweeper_new_def)
  from use_before_setup_throws [of sweeper_without_quadrature storage_of_ones Sweeper_new] q e
  obtain msg where m: "Sweeper_setup storage_of_ones sweeper_without_quadrature =
        (Inl (RuntimeError msg), sweeper_without_quadrature)"
    and i: "fst (initial_state Sweeper_new) = Inl (RuntimeError ''sweeper not setup before querying initial state'')"
           "fst (get_initial_state Sweeper_new) = Inl (RuntimeError ''sweeper not setup before querying initial state'')"
           "states (snd (initial_state Sweeper_new)) = []"
    by blast
  have m': "msg = ''Quadrature not yet set.''"
    using m q st by (simp add: Sweeper_setup_def sweeper_without_quadrature_def Sweeper_new_def)
  have n: "Sweeper_setup storage_of_ones Sweeper_new = (Inl (RuntimeError ''Status not yet set.''), Sweeper_new)"
    using st0 by (simp add: Sweeper_setup_def)
  show ?thesis using q m m' n e i by simp
qed

subsection \<open>The end state\<close>

text \<open>
  With a quadrature whose right endpoint is not a node (one Gauss-Legendre node), the
  initial value \<open>1\<close> spread to both states and right-hand sides that vanish, the spec's
  formula gives the end state \<open>1\<close>; \<^verbatim>\<open>Sweeper::integrate_end_state\<close> throws instead and
  the end state keeps its old value \<open>0\<close>.
\<close>

theorem integrate_end_state_not_right_node_counterexample:
  "integrate_end_state (1 / 10) sweeper_legendre =
     (Inl (RuntimeError
        ''integration of end state for quadrature not including right time interval boundary''),
      sweeper_legendre)
   \<and> end_state sweeper_legendre = Some \<lparr>data = [0]\<rparr>
   \<and> spec_integrated_end_state (1 / 10) [1 / 2, 1 / 2] [1] [[0], [0]] [[0], [0]] = [1]"
  by (simp add: integrate_end_state_def sweeper_legendre_def Sweeper_new_def legendre1_def
        spec_integrated_end_state_def)

text \<open>
  Claim C2, amended. On a sweeper that has been set up (quadrature attached, end state
  allocated, \<open>M + 1\<close> non-null states): if the quadrature's right endpoint is a node,
  \<^verbatim>\<open>integrate_end_state(dt)\<close> succeeds and the end state's data is an exact copy of the
  data of \<open>states[M]\<close>, nothing else changing; otherwise the base sweeper throws a runtime
  error and changes nothing (the weighted integration is left to overriding subclasses).
\<close>

theorem integrate_end_state_copies_or_throws:
  assumes "quadrature s = Some q" and "end_state s = Some e"
    and "length (states s) = get_num_nodes q + 1" and "\<forall>u \<in> set (states s). u \<noteq> None"
  shows "(right_is_node q \<longrightarrow>
            (\<exists>u. states s ! get_num_nodes q = Some u
               \<and> integrate_end_state step s = (Inr (), s\<lparr>end_state := Some (e\<lparr>data := data u\<rparr>)\<rparr>)))
       \<and> (\<not> right_is_node q \<longrightarrow>
            integrate_end_state step s =
              (Inl (RuntimeError
                 ''integration of end state for quadrature not including right time interval boundary''),
               s))"
proof -
  have ne: "states s \<noteq> []" using assms(3) by auto
  have l: "last (states s) = states s ! get_num_nodes q"
    using assms(3) ne by (simp add: last_conv_nth)
  have "states s ! get_num_nodes q \<in> set (states s)"
    using assms(3) by simp
  then obtain u where u: "states s ! get_num_nodes q = Some u"
    using assms(4) by fastforce
  show ?thesis
    using assms(1,2) ne l u by (simp add: integrate_end_state_def)
qed

theorem integrate_end_state_copies_or_throws_witness:
  "integrate_end_state (1 / 10) sweeper_lobatto =
     (Inr (), sweeper_lobatto\<lparr>end_state := Some \<lparr>data = [4]\<rparr>\<rparr>)
   \<and> integrate_end_state (1 / 10) sweeper_legendre =
     (Inl (RuntimeError
        ''integration of end state for quadrature not including right time interval boundary''),
      sweeper_legendre)"
proof -
  have a: "quadrature sweeper_lobatto = Some lobatto3"
       "end_state sweeper_lobatto = Some \<lparr>data = [0]\<rparr>"
       "length (states sweeper_lobatto) = get_num_nodes lobatto3 + 1"
       "\<forall>u \<in> set (states sweeper_lobatto). u \<noteq> None"
       "right_is_node lobatto3"
       "states sweeper_lobatto ! get_num_nodes lobatto3 = Some \<lparr>data = [4]\<rparr>"
    by (simp_all add: sweeper_lobatto_def Sweeper_new_def lobatto3_def get_num_nodes_def)
  have b: "quadrature sweeper_legendre = Some legendre1"
       "end_state sweeper_legendre = Some \<lparr>data = [0]\<rparr>"
       "length (states sweeper_legendre) = get_num_nodes legendre1 + 1"
       "\<forall>u \<in> set (states sweeper_legendre). u \<noteq> None"
       "\<not> right_is_node legendre1"
    by (simp_all add: sweeper_legendre_def Sweeper_new_def legendre1_def get_num_nodes_def)
  show ?thesis
    using integrate_end_state_copies_or_throws [OF a(1-4), of "1 / 10"]
          integrate_end_state_copies_or_throws [OF b(1-4), of "1 / 10"] a(5,6) b(5)
    by simp
qed

subsection \<open>The convergence check\<close>


lemma tolerance_check_status: "status (snd (tolerance_check a r s)) = status s"
  by (simp add: tolerance_check_def ml_clog_def)

lemma converged_last_norms_status: "status (snd (converged_last_norms s)) = status s"
  by (simp add: converged_last_norms_def Let_def split: option.splits)

lemma pre_check_frame: "status (snd (converged cr True s)) = status (snd (cr True s))"
proof (cases "cr True s")
  case (Pair r s1)
  show ?thesis
  proof (cases r)
    case (Inl e)
    with Pair show ?thesis by (simp add: converged_def)
  next
    case (Inr u)
    obtain r2 s5 where c: "converged_last_norms s1 = (r2, s5)" by (cases "converged_last_norms s1")
    have s5: "status s5 = status s1" using converged_last_norms_status [of s1] c by simp
    show ?thesis using Pair Inr c s5
      by (cases r2) (simp_all add: converged_def converged_pre_check_def tolerance_check_status)
  qed
qed






lemma last_update_last: "xs \<noteq> [] \<Longrightarrow> last (xs[length xs - 1 := v]) = v"
  by (simp add: last_conv_nth)

lemma length_resize_dbl: "length (resize_dbl n xs) = n"
  by (simp add: resize_dbl_def)




lemma fold_max_abs:
  "0 \<le> a \<Longrightarrow> fold (\<lambda>x m. max \<bar>x\<bar> m) xs a = max a (fold (\<lambda>x m. max \<bar>x\<bar> m) xs (0::real))"
proof (induction xs arbitrary: a)
  case Nil
  then show ?case by simp
next
  case (Cons x xs)
  have 1: "fold (\<lambda>x m. max \<bar>x\<bar> m) xs (max \<bar>x\<bar> a) = max (max \<bar>x\<bar> a) (fold (\<lambda>x m. max \<bar>x\<bar> m) xs 0)"
    by (rule Cons.IH) (simp add: le_max_iff_disj)
  have 2: "fold (\<lambda>x m. max \<bar>x\<bar> m) xs \<bar>x\<bar> = max \<bar>x\<bar> (fold (\<lambda>x m. max \<bar>x\<bar> m) xs 0)"
    by (rule Cons.IH) simp
  show ?case
    by (simp add: 1 2 max.assoc max.left_commute)
qed

lemma norm0_Cons: "norm0 \<lparr>data = x # xs\<rparr> = max \<bar>x\<bar> (norm0 \<lparr>data = xs\<rparr>)"
  using fold_max_abs [of "\<bar>x\<bar>" xs] by (simp add: norm0_def)

lemma norm0_Nil: "norm0 \<lparr>data = []\<rparr> = 0"
  by (simp add: norm0_def)



lemma residual_norms_at_status: "status (snd (residual_norms_at m s)) = status s"
  by (simp add: residual_norms_at_def Let_def split: option.splits)

lemma for_loop_status: "status (snd (for_loop ms residual_norms_at s)) = status s"
proof (induction ms arbitrary: s)
  case Nil then show ?case by simp
next
  case (Cons m ms)
  obtain r s' where b: "residual_norms_at m s = (r, s')" by (cases "residual_norms_at m s")
  then have "status s' = status s" using residual_norms_at_status [of m s] by simp
  with b Cons show ?case by (cases r) simp_all
qed

lemma store_max_norms_Inr:
  assumes "store_max_norms s = (Inr u, s')"
  shows "\<exists>st a r. status s = Some st \<and> max_element (abs_res_norms s) = Inr a
     \<and> max_element (rel_res_norms s) = Inr r
     \<and> s' = s\<lparr>status := Some (st\<lparr>abs_res_norm := a, rel_res_norm := r\<rparr>)\<rparr>"
  using assms by (auto simp: store_max_norms_def split: option.splits sum.splits)

lemma tolerance_check_norms:
  "abs_res_norms (snd (tolerance_check a r s)) = abs_res_norms s"
  "rel_res_norms (snd (tolerance_check a r s)) = rel_res_norms s"
  by (simp_all add: tolerance_check_def ml_clog_def)

lemma full_check_writes:
  assumes "cr False s = (Inr (), s1)" and "converged cr False s = (Inr b, s')"
  shows "\<exists>st a r. status s1 = Some st \<and> max_element (abs_res_norms s') = Inr a
     \<and> max_element (rel_res_norms s') = Inr r
     \<and> status s' = Some (st\<lparr>abs_res_norm := a, rel_res_norm := r\<rparr>)"
proof -
  obtain r5 s5 where c5: "converged_last_norms s1 = (r5, s5)" by (cases "converged_last_norms s1")
  obtain r6 s6 where c6: "for_loop [0..<length (residuals s5) - 1] residual_norms_at s5 = (r6, s6)"
    by (cases "for_loop [0..<length (residuals s5) - 1] residual_norms_at s5")
  obtain r7 s7 where c7: "store_max_norms s6 = (r7, s7)" by (cases "store_max_norms s6")
  have st5: "status s5 = status s1" using converged_last_norms_status [of s1] c5 by simp
  have st6: "status s6 = status s5" using for_loop_status [of _ s5] c6 by (metis snd_conv)
  from assms c5 obtain u5 where r5: "r5 = Inr u5"
    by (cases r5) (simp_all add: converged_def)
  from assms c5 r5 c6 obtain u6 where r6: "r6 = Inr u6"
    by (cases r6) (simp_all add: converged_def converged_full_check_def)
  from assms c5 r5 c6 r6 c7 obtain u7 where r7: "r7 = Inr u7"
    by (cases r7) (simp_all add: converged_def converged_full_check_def)
  from store_max_norms_Inr [OF c7 [unfolded r7]]
  obtain st a r where m: "status s6 = Some st" "max_element (abs_res_norms s6) = Inr a"
     "max_element (rel_res_norms s6) = Inr r"
     "s7 = s6\<lparr>status := Some (st\<lparr>abs_res_norm := a, rel_res_norm := r\<rparr>)\<rparr>" by blast
  have e: "(Inr b, s') = tolerance_check a r s7"
    using assms c5 r5 c6 r6 c7 r7 m(4) by (simp add: converged_def converged_full_check_def)
  have "s' = snd (tolerance_check a r s7)" using e by (metis snd_conv)
  then have "abs_res_norms s' = abs_res_norms s6" "rel_res_norms s' = rel_res_norms s6"
      "status s' = status s7"
    using m(4) by (simp_all add: tolerance_check_norms tolerance_check_status)
  then show ?thesis using m st5 st6 by simp
qed

lemma pre_check_decision:
  assumes "cr True s = (Inr (), s1)" and "residuals s1 \<noteq> []" and "last (residuals s1) = Some r"
    and "states s1 \<noteq> []" and "last (states s1) = Some u"
  shows "fst (converged cr True s) =
    Inr ((abs_residual_tol s1 > 0 \<or> rel_residual_tol s1 > 0)
         \<and> (norm0 r < abs_residual_tol s1
            \<or> dbl_less (dbl_div (Fin (norm0 r)) (Fin (norm0 u))) (Fin (rel_residual_tol s1))))"
proof -
  let ?n = "length (residuals s1)"
  have n: "0 < ?n" using assms(2) by simp
  have r: "resize_dbl ?n xs \<noteq> []" for xs
    using n length_resize_dbl [of ?n xs] by auto
  have la: "last ((resize_dbl ?n xs)[?n - Suc 0 := v]) = v" for xs v
    using last_update_last [OF r, of xs v] by (simp add: length_resize_dbl)
  show ?thesis
    using assms
    by (simp add: converged_def converged_last_norms_def Let_def length_resize_dbl la r
          converged_pre_check_def tolerance_check_def del: dbl_div.simps)
qed

text \<open>
  Claim C10. \<^verbatim>\<open>converged(true)\<close> leaves the status as the residual computation left it:
  no field of the status is written. When it reaches its decision, the decision is taken
  from the norms of the last residual and the last state alone. The norms in the status
  are written by the full check \<^verbatim>\<open>converged(false)\<close>: when that returns, the status is
  the one the residual computation left, with \<open>abs_res_norm\<close> and \<open>rel_res_norm\<close> set
  to the maxima of the two norm vectors.
\<close>

theorem pre_check_leaves_status:
  "status (snd (converged cr True s)) = status (snd (cr True s))
   \<and> (cr True s = (Inr (), s1) \<and> residuals s1 \<noteq> [] \<and> last (residuals s1) = Some r
        \<and> states s1 \<noteq> [] \<and> last (states s1) = Some u \<longrightarrow>
      fst (converged cr True s) =
        Inr ((abs_residual_tol s1 > 0 \<or> rel_residual_tol s1 > 0)
             \<and> (norm0 r < abs_residual_tol s1
                \<or> dbl_less (dbl_div (Fin (norm0 r)) (Fin (norm0 u))) (Fin (rel_residual_tol s1)))))
   \<and> (cr False t = (Inr (), t1) \<and> converged cr False t = (Inr b, t') \<longrightarrow>
      (\<exists>st a r. status t1 = Some st \<and> max_element (abs_res_norms t') = Inr a
         \<and> max_element (rel_res_norms t') = Inr r
         \<and> status t' = Some (st\<lparr>abs_res_norm := a, rel_res_norm := r\<rparr>)))"
  using pre_check_frame [of cr s] pre_check_decision [of cr s s1 r u]
    full_check_writes [of cr t t1 b t'] by blast

lemma converged_sweeper_residuals:
  "fst (converged residuals_up_to_date False sweeper_residuals) = Inr True"
  by (simp add: converged_def residuals_up_to_date_def sweeper_residuals_def Sweeper_new_def
        converged_last_norms_def converged_full_check_def residual_norms_at_def store_max_norms_def
        tolerance_check_def resize_dbl_def Let_def norm0_Cons norm0_Nil status0_def)

theorem pre_check_leaves_status_witness:
  "status (snd (converged residuals_up_to_date True sweeper_residuals)) = Some status0
   \<and> fst (converged residuals_up_to_date True sweeper_residuals) = Inr True
   \<and> (\<exists>a r. max_element (abs_res_norms (snd (converged residuals_up_to_date False sweeper_residuals))) = Inr a
         \<and> max_element (rel_res_norms (snd (converged residuals_up_to_date False sweeper_residuals))) = Inr r
         \<and> status (snd (converged residuals_up_to_date False sweeper_residuals))
              = Some (status0\<lparr>abs_res_norm := a, rel_res_norm := r\<rparr>))"
proof -
  have h: "residuals_up_to_date True sweeper_residuals = (Inr (), sweeper_residuals)"
      "residuals_up_to_date False sweeper_residuals = (Inr (), sweeper_residuals)"
      "residuals sweeper_residuals \<noteq> []" "last (residuals sweeper_residuals) = Some \<lparr>data = [-1 / 2, 0]\<rparr>"
      "states sweeper_residuals \<noteq> []" "last (states sweeper_residuals) = Some \<lparr>data = [4, 1]\<rparr>"
      "status sweeper_residuals = Some status0"
      "abs_residual_tol sweeper_residuals = 2" "rel_residual_tol sweeper_residuals = 0"
    by (simp_all add: residuals_up_to_date_def sweeper_residuals_def Sweeper_new_def)
  have c: "converged residuals_up_to_date False sweeper_residuals =
      (Inr True, snd (converged residuals_up_to_date False sweeper_residuals))"
    using converged_sweeper_residuals by (metis prod.collapse)
  show ?thesis
    using pre_check_leaves_status [of residuals_up_to_date sweeper_residuals sweeper_residuals
        "\<lparr>data = [-1 / 2, 0]\<rparr>" "\<lparr>data = [4, 1]\<rparr>" sweeper_residuals sweeper_residuals True
        "snd (converged residuals_up_to_date False sweeper_residuals)"] h c
    by (simp add: norm0_Cons norm0_Nil)
qed

section \<open>Properties of the communicator\<close>

lemma comm_two_pending_eq:
  "comm_two_pending =
     \<lparr>requests = [((1, 0), Active 0), ((2, 0), Active 1)],
      mpi = \<lparr>next_handle = 2, in_flight = [(0, Isend, (1, 0)), (1, Isend, (2, 0))]\<rparr>\<rparr>"
  by (simp add: Let_def comm_two_pending_def isend_def wait_or_insert_def start_stored_def MpiP2P_new_def
        map_find_def map_insert_def map_assign_def MPI_Isend_def MPI_Start_def check_mpi_error_def
        MPI_SUCCESS_def)

lemma cleanup_loop_stale:
  "\<exists>ys. snd (snd (cleanup_loop stale_next wait_err it stale c)) = stale @ ys"
proof (induction stale_next wait_err it stale c rule: cleanup_loop.induct)
  case (1 stale_next wait_err it stale c)
  show ?case
  proof (cases it)
    case End
    then show ?thesis by (subst cleanup_loop.simps) simp
  next
    case (At k)
    show ?thesis
    proof (cases "map_find k (requests c)")
      case None
      then show ?thesis using At by (subst cleanup_loop.simps) simp
    next
      case (Some req)
      obtain r c1 where w: "wait_stored (wait_err k) k req c = (r, c1)" by (cases "wait_stored (wait_err k) k req c")
      show ?thesis
      proof (cases r)
        case (Inl e)
        then show ?thesis using At Some w by (subst cleanup_loop.simps) simp
      next
        case (Inr u)
        show ?thesis
        proof (cases "map_find k (requests c1) = Some MPI_REQUEST_NULL")
          case False
          then show ?thesis using At Some w Inr by (subst cleanup_loop.simps) simp
        next
          case True
          show ?thesis
          proof (cases "stale_next k (map_erase k (requests c1))")
            case (Inl e)
            then show ?thesis using At Some w Inr True
              by (subst cleanup_loop.simps) (simp add: Let_def)
          next
            case it': (Inr it')
            from "1.IH" [OF At Some w [symmetric] Inr _ refl, of it'] True it'
            obtain ys where "snd (snd (cleanup_loop stale_next wait_err it' (stale @ [k])
                (c1\<lparr>requests := map_erase k (requests c1)\<rparr>))) = (stale @ [k]) @ ys"
              by auto
            then show ?thesis using At Some w Inr True it'
              by (subst cleanup_loop.simps) (simp add: Let_def)
          qed
        qed
      qed
    qed
  qed
qed

lemma cleanup_stale:
  "snd (snd (cleanup stale_next wait_err c)) =
     snd (snd (cleanup_loop stale_next wait_err (map_begin (requests c)) [] c))"
  by (simp add: cleanup_def split: prod.splits sum.splits)

lemma cleanup_loop_End: "cleanup_loop stale_next wait_err End stale c = (Inr (), c, stale)"
  by (subst cleanup_loop.simps) simp

lemma cleanup_loop_dangling:
  "map_find k (requests c) = None \<Longrightarrow>
     cleanup_loop stale_next wait_err (At k) stale c =
       (Inl (UndefinedBehaviour ''dereference of an invalidated map iterator''), c, stale)"
  by (subst cleanup_loop.simps) simp

text \<open>
  Claim C5. With two sends pending and every wait succeeding, \<^verbatim>\<open>cleanup()\<close> waits on the
  first stored request and erases its entry; the loop then increments the iterator that
  pointed to the erased entry, whatever that increment does. What the call does from
  there on is a function of what the undefined increments yield: it returns to its caller
  only if the first one yields the second entry and the second one yields the end of the
  map. This is so while the links of each erased node are still intact when they are
  read: then the second request is waited on and erased as well and the call returns with
  an empty map.
\<close>

theorem cleanup_two_pending_stale_increment:
  "(\<exists>rest. snd (snd (cleanup stale_next no_mpi_errors comm_two_pending)) = (1, 0) # rest)
   \<and> cleanup stale_next no_mpi_errors comm_two_pending =
       (case stale_next (1, 0) [((2, 0), Active 1)] of
          Inl e \<Rightarrow> (Inl e, comm_second_pending, [(1, 0)])
        | Inr End \<Rightarrow>
            (Inl (AssertionFailed ''this->_requests.size() == 0''), comm_second_pending, [(1, 0)])
        | Inr (At k) \<Rightarrow>
            if k \<noteq> (2, 0)
            then (Inl (UndefinedBehaviour ''dereference of an invalidated map iterator''),
                  comm_second_pending, [(1, 0)])
            else
              (case stale_next (2, 0) [] of
                 Inl e \<Rightarrow> (Inl e, comm_none_pending, [(1, 0), (2, 0)])
               | Inr End \<Rightarrow> (Inr (), comm_none_pending, [(1, 0), (2, 0)])
               | Inr (At k') \<Rightarrow>
                   (Inl (UndefinedBehaviour ''dereference of an invalidated map iterator''),
                    comm_none_pending, [(1, 0), (2, 0)])))
   \<and> cleanup increment_to_successor no_mpi_errors comm_two_pending =
       (Inr (), comm_none_pending, [(1, 0), (2, 0)])"
proof (intro conjI)
  have step1: "cleanup_loop sn no_mpi_errors (At (1, 0)) [] comm_two_pending =
      (case sn (1, 0) [((2, 0), Active 1)] of
         Inl e \<Rightarrow> (Inl e, comm_second_pending, [(1, 0)])
       | Inr it' \<Rightarrow> cleanup_loop sn no_mpi_errors it' [(1, 0)] comm_second_pending)" for sn
    unfolding comm_two_pending_eq comm_second_pending_def
    by (subst cleanup_loop.simps)
       (simp add: map_find_def wait_stored_def MPI_Wait_def no_mpi_errors_def
          MPI_SUCCESS_def check_mpi_error_def map_assign_def map_erase_def Let_def
          split: sum.splits)
  have step2: "cleanup_loop sn no_mpi_errors (At (2, 0)) [(1, 0)] comm_second_pending =
      (case sn (2, 0) [] of
         Inl e \<Rightarrow> (Inl e, comm_none_pending, [(1, 0), (2, 0)])
       | Inr it' \<Rightarrow> cleanup_loop sn no_mpi_errors it' [(1, 0), (2, 0)] comm_none_pending)" for sn
    unfolding comm_second_pending_def comm_none_pending_def
    by (subst cleanup_loop.simps)
       (simp add: map_find_def wait_stored_def MPI_Wait_def no_mpi_errors_def
          MPI_SUCCESS_def check_mpi_error_def map_assign_def map_erase_def Let_def
          split: sum.splits)
  have b: "map_begin (requests comm_two_pending) = At (1, 0)"
    by (simp add: comm_two_pending_eq map_begin_def)
  have miss1: "k \<noteq> (2, 0) \<Longrightarrow> map_find k (requests comm_second_pending) = None" for k
    by (simp add: comm_second_pending_def map_find_def)
  have miss0: "map_find k (requests comm_none_pending) = None" for k
    by (simp add: comm_none_pending_def map_find_def)
  have r1: "requests comm_second_pending \<noteq> []" "requests comm_none_pending = []"
    by (simp_all add: comm_second_pending_def comm_none_pending_def)
  show "\<exists>rest. snd (snd (cleanup stale_next no_mpi_errors comm_two_pending)) = (1, 0) # rest"
  proof (cases "stale_next (1, 0) [((2, 0), Active 1)]")
    case (Inl e)
    have "cleanup_loop stale_next no_mpi_errors (At (1, 0)) [] comm_two_pending =
        (Inl e, comm_second_pending, [(1, 0)])"
      by (simp only: step1 Inl sum.case)
    then show ?thesis by (simp only: cleanup_stale b snd_conv) blast
  next
    case (Inr it')
    have "cleanup_loop stale_next no_mpi_errors (At (1, 0)) [] comm_two_pending =
        cleanup_loop stale_next no_mpi_errors it' [(1, 0)] comm_second_pending"
      by (simp only: step1 Inr sum.case)
    moreover from cleanup_loop_stale [of stale_next no_mpi_errors it' "[(1, 0)]" comm_second_pending]
    obtain ys where "snd (snd (cleanup_loop stale_next no_mpi_errors it' [(1, 0)] comm_second_pending))
        = [(1, 0)] @ ys"
      by blast
    ultimately show ?thesis by (simp only: cleanup_stale b append_Cons append_Nil) blast
  qed
  show "cleanup stale_next no_mpi_errors comm_two_pending =
       (case stale_next (1, 0) [((2, 0), Active 1)] of
          Inl e \<Rightarrow> (Inl e, comm_second_pending, [(1, 0)])
        | Inr End \<Rightarrow>
            (Inl (AssertionFailed ''this->_requests.size() == 0''), comm_second_pending, [(1, 0)])
        | Inr (At k) \<Rightarrow>
            if k \<noteq> (2, 0)
            then (Inl (UndefinedBehaviour ''dereference of an invalidated map iterator''),
                  comm_second_pending, [(1, 0)])
            else
              (case stale_next (2, 0) [] of
                 Inl e \<Rightarrow> (Inl e, comm_none_pending, [(1, 0), (2, 0)])
               | Inr End \<Rightarrow> (Inr (), comm_none_pending, [(1, 0), (2, 0)])
               | Inr (At k') \<Rightarrow>
                   (Inl (UndefinedBehaviour ''dereference of an invalidated map iterator''),
                    comm_none_pending, [(1, 0), (2, 0)])))"
  proof (cases "stale_next (1, 0) [((2, 0), Active 1)]")
    case i1: (Inl e)
    have L: "cleanup_loop stale_next no_mpi_errors (At (1, 0)) [] comm_two_pending =
        (Inl e, comm_second_pending, [(1, 0)])"
      by (simp only: step1 i1 sum.case)
    show ?thesis unfolding cleanup_def b L i1 by simp
  next
    case i1: (Inr it')
    have L: "cleanup_loop stale_next no_mpi_errors (At (1, 0)) [] comm_two_pending =
        cleanup_loop stale_next no_mpi_errors it' [(1, 0)] comm_second_pending"
      by (simp only: step1 i1 sum.case)
    show ?thesis
    proof (cases it')
      case End
      show ?thesis unfolding cleanup_def b L i1 End cleanup_loop_End using r1 by simp
    next
      case (At k)
      show ?thesis
      proof (cases "k = (2, 0)")
        case False
        show ?thesis
          unfolding cleanup_def b L i1 At cleanup_loop_dangling [OF miss1 [OF False]]
          using False by simp
      next
        case True
        show ?thesis
        proof (cases "stale_next (2, 0) []")
          case i2: (Inl e)
          have L2: "cleanup_loop stale_next no_mpi_errors (At (2, 0)) [(1, 0)] comm_second_pending =
              (Inl e, comm_none_pending, [(1, 0), (2, 0)])"
            by (simp only: step2 i2 sum.case)
          show ?thesis unfolding cleanup_def b L i1 At True L2 i2 by simp
        next
          case i2: (Inr it'')
          have L2: "cleanup_loop stale_next no_mpi_errors (At (2, 0)) [(1, 0)] comm_second_pending =
              cleanup_loop stale_next no_mpi_errors it'' [(1, 0), (2, 0)] comm_none_pending"
            by (simp only: step2 i2 sum.case)
          show ?thesis
          proof (cases it'')
            case End
            show ?thesis unfolding cleanup_def b L i1 At True L2 i2 End cleanup_loop_End
              using r1 by simp
          next
            case a2: (At k')
            show ?thesis
              unfolding cleanup_def b L i1 At True L2 i2 a2 cleanup_loop_dangling [OF miss0]
              by simp
          qed
        qed
      qed
    qed
  qed
  show "cleanup increment_to_successor no_mpi_errors comm_two_pending =
       (Inr (), comm_none_pending, [(1, 0), (2, 0)])"
    unfolding cleanup_def b step1
    by (simp add: increment_to_successor_def step2 cleanup_loop_End r1)
qed

lemma cleanup_empty: "requests c = [] \<Longrightarrow> cleanup sn w c = (Inr (), c, [])"
  unfolding cleanup_def by (subst cleanup_loop.simps) (simp add: map_begin_def)

subsection \<open>Facts about the request map\<close>

lemma keys_map_assign: "map fst (map_assign k v m) = map fst m"
  by (induction m) (auto simp: map_assign_def)

lemma find_map_assign:
  "map_find k' (map_assign k v m) =
     (if k' = k \<and> map_find k m \<noteq> None then Some v else map_find k' m)"
  by (induction m) (auto simp: map_assign_def map_find_def)

lemma find_insort:
  "map_find k m = None \<Longrightarrow>
     map_find k' (insort_key fst (k, v) m) = (if k' = k then Some v else map_find k' m)"
  by (induction m) (auto simp: map_find_def split: if_splits)

lemma find_map_insert:
  "map_find k m = None \<Longrightarrow>
     map_find k' (map_insert k v m) = (if k' = k then Some v else map_find k' m)"
  by (simp add: map_insert_def find_insort)

lemma set_map_assign_Active:
  "(k', Active h) \<in> set (map_assign k v m) \<Longrightarrow> (k', Active h) \<in> set m \<or> (k' = k \<and> v = Active h)"
  by (auto simp: map_assign_def split: if_splits)

lemma set_map_insert: "set (map_insert k v m) \<subseteq> insert (k, v) (set m)"
  by (auto simp: map_insert_def set_insort_key)

lemma tracked_new: "tracked MpiP2P_new"
  by (simp add: tracked_def MpiP2P_new_def no_shared_index_def)

lemma tracked_reassign:
  assumes "tracked c" and "map_find k (requests c) = Some req"
  shows "tracked (c\<lparr>requests := map_assign k req (requests c)\<rparr>)"
proof -
  have stored: "(k, req) \<in> set (requests c)"
    using assms(2) by (simp add: map_find_def map_of_SomeD)
  have f: "map_find k' (map_assign k req (requests c)) = map_find k' (requests c)" for k'
    using assms(2) by (simp add: find_map_assign)
  have s: "(k', Active h) \<in> set (requests c)" if "(k', Active h) \<in> set (map_assign k req (requests c))" for k' h
    using set_map_assign_Active [OF that] stored by blast
  show ?thesis
    using assms(1) unfolding tracked_def no_shared_index_def by (simp add: f) (blast dest: s)
qed

lemma tracked_complete:
  assumes "tracked c" and "map_find k (requests c) = Some (Active h)"
  shows "tracked (c\<lparr>requests := map_assign k MPI_REQUEST_NULL (requests c),
          mpi := (mpi c)\<lparr>in_flight := filter (\<lambda>(h', _). h' \<noteq> h) (in_flight (mpi c))\<rparr>\<rparr>)"
proof -
  have f: "map_find k' (map_assign k MPI_REQUEST_NULL (requests c)) =
      (if k' = k then Some MPI_REQUEST_NULL else map_find k' (requests c))" for k'
    using assms(2) by (simp add: find_map_assign)
  have d: "distinct (map (\<lambda>(h, kind, idx). idx) (filter (\<lambda>(h', _). h' \<noteq> h) (in_flight (mpi c))))"
    using assms(1) by (simp add: tracked_def no_shared_index_def distinct_map_filter)
  have s: "(k', Active h') \<in> set (requests c)"
    if "(k', Active h') \<in> set (map_assign k MPI_REQUEST_NULL (requests c))" for k' h'
    using set_map_assign_Active [OF that] by blast
  have i: "map_find idx (requests c) = Some (Active h') \<and> h' < next_handle (mpi c) \<and> idx \<noteq> k"
    if "(h', kind, idx) \<in> set (in_flight (mpi c))" and "h' \<noteq> h" for h' kind idx
  proof -
    have 1: "map_find idx (requests c) = Some (Active h')" "h' < next_handle (mpi c)"
      using assms(1) that(1) unfolding tracked_def by blast+
    with assms(2) that(2) have "idx \<noteq> k" by auto
    with 1 show ?thesis by simp
  qed
  have old: "h' < next_handle (mpi c)" if "(k', Active h') \<in> set (requests c)" for k' h'
    using assms(1) that unfolding tracked_def by blast
  show ?thesis
    unfolding tracked_def no_shared_index_def
    using d by (auto simp: f dest: i s old)
qed

lemma wait_stored_cases:
  assumes "map_find k (requests c) = Some req"
  shows "wait_stored wait_err k req c =
     (if wait_err \<noteq> MPI_SUCCESS
      then (Inl (RuntimeError ''MPI encountered an error''), c\<lparr>requests := map_assign k req (requests c)\<rparr>)
      else case req of
        MPI_REQUEST_NULL \<Rightarrow> (Inr (), c\<lparr>requests := map_assign k req (requests c)\<rparr>)
      | Active h \<Rightarrow>
          (Inr (), c\<lparr>requests := map_assign k MPI_REQUEST_NULL (requests c),
             mpi := (mpi c)\<lparr>in_flight := filter (\<lambda>(h', _). h' \<noteq> h) (in_flight (mpi c))\<rparr>\<rparr>))"
  by (simp add: wait_stored_def MPI_Wait_def check_mpi_error_def split: MPI_Request.splits)

lemma wait_stored_tracked:
  assumes "tracked c" and "map_find k (requests c) = Some req"
  shows "tracked (snd (wait_stored wait_err k req c))"
proof (cases "wait_err \<noteq> MPI_SUCCESS \<or> req = MPI_REQUEST_NULL")
  case True
  then show ?thesis
    using tracked_reassign [OF assms] by (auto simp: wait_stored_cases [OF assms(2)])
next
  case False
  then obtain h where "req = Active h" by (cases req) auto
  with False show ?thesis
    using tracked_complete [OF assms(1), of k h] assms(2)
    unfolding wait_stored_cases [OF assms(2)] by simp
qed


lemma tracked_insert:
  assumes "tracked c" and "map_find k (requests c) = None"
  shows "tracked (c\<lparr>requests := map_insert k MPI_REQUEST_NULL (requests c)\<rparr>)"
proof -
  have f: "map_find k' (map_insert k MPI_REQUEST_NULL (requests c)) =
      (if k' = k then Some MPI_REQUEST_NULL else map_find k' (requests c))" for k'
    using assms(2) by (simp add: find_map_insert)
  have s: "(k', Active h') \<in> set (requests c)"
    if "(k', Active h') \<in> set (map_insert k MPI_REQUEST_NULL (requests c))" for k' h'
    using set_map_insert [of k MPI_REQUEST_NULL "requests c"] that by auto
  have i: "map_find idx (requests c) = Some (Active h') \<and> h' < next_handle (mpi c) \<and> idx \<noteq> k"
    if "(h', kind, idx) \<in> set (in_flight (mpi c))" for h' kind idx
  proof -
    have 1: "map_find idx (requests c) = Some (Active h')" "h' < next_handle (mpi c)"
      using assms(1) that unfolding tracked_def by blast+
    with assms(2) have "idx \<noteq> k" by auto
    with 1 show ?thesis by simp
  qed
  have old: "h' < next_handle (mpi c)" if "(k', Active h') \<in> set (requests c)" for k' h'
    using assms(1) that unfolding tracked_def by blast
  have d: "distinct (map (\<lambda>(h, kind, idx). idx) (in_flight (mpi c)))"
    using assms(1) by (simp add: tracked_def no_shared_index_def)
  show ?thesis
    unfolding tracked_def no_shared_index_def
    using d by (auto simp: f dest: i s old)
qed

lemma wait_or_insert_tracked:
  assumes "tracked c"
  shows "tracked (snd (wait_or_insert wait_err k c))"
    and "fst (wait_or_insert wait_err k c) = Inr u \<Longrightarrow>
           map_find k (requests (snd (wait_or_insert wait_err k c))) = Some MPI_REQUEST_NULL"
proof -
  show "tracked (snd (wait_or_insert wait_err k c))"
  proof (cases "map_find k (requests c)")
    case None
    then show ?thesis using tracked_insert [OF assms None] by (simp add: wait_or_insert_def)
  next
    case (Some req)
    then show ?thesis using wait_stored_tracked [OF assms Some] by (simp add: wait_or_insert_def)
  qed
  show "map_find k (requests (snd (wait_or_insert wait_err k c))) = Some MPI_REQUEST_NULL"
    if "fst (wait_or_insert wait_err k c) = Inr u"
  proof (cases "map_find k (requests c)")
    case None
    then show ?thesis by (simp add: wait_or_insert_def find_map_insert)
  next
    case (Some req)
    then show ?thesis
      using that
      by (auto simp: wait_or_insert_def wait_stored_cases [OF Some] find_map_assign
            split: if_splits MPI_Request.splits)
  qed
qed

lemma tracked_start:
  assumes "tracked c" and "map_find k (requests c) = Some MPI_REQUEST_NULL"
  shows "tracked (c\<lparr>requests := map_assign k (Active (next_handle (mpi c))) (requests c),
           mpi := (mpi c)\<lparr>next_handle := next_handle (mpi c) + 1,
                    in_flight := in_flight (mpi c) @ [(next_handle (mpi c), kind, k)]\<rparr>\<rparr>)"
proof -
  have f: "map_find k' (map_assign k (Active (next_handle (mpi c))) (requests c)) =
      (if k' = k then Some (Active (next_handle (mpi c))) else map_find k' (requests c))" for k'
    using assms(2) by (simp add: find_map_assign)
  have i: "map_find idx (requests c) = Some (Active h') \<and> h' < next_handle (mpi c) \<and> idx \<noteq> k"
    if "(h', kind', idx) \<in> set (in_flight (mpi c))" for h' kind' idx
  proof -
    have 1: "map_find idx (requests c) = Some (Active h')" "h' < next_handle (mpi c)"
      using assms(1) that unfolding tracked_def by blast+
    with assms(2) have "idx \<noteq> k" by auto
    with 1 show ?thesis by simp
  qed
  have old: "h' < next_handle (mpi c)" if "(k', Active h') \<in> set (requests c)" for k' h'
    using assms(1) that unfolding tracked_def by blast
  have s: "h' < Suc (next_handle (mpi c))"
    if "(k', Active h') \<in> set (map_assign k (Active (next_handle (mpi c))) (requests c))" for k' h'
    using set_map_assign_Active [OF that] old by fastforce
  have d: "distinct (map (\<lambda>(h, kind, idx). idx) (in_flight (mpi c)))"
    using assms(1) by (simp add: tracked_def no_shared_index_def)
  have n: "k \<notin> (\<lambda>(h, kind, idx). idx) ` set (in_flight (mpi c))"
    using i by fastforce
  show ?thesis
    unfolding tracked_def no_shared_index_def
    using d n by (auto simp: f less_Suc_eq dest: i s)
qed

lemma start_stored_tracked:
  assumes "tracked c" and "map_find k (requests c) = Some MPI_REQUEST_NULL"
  shows "tracked (snd (start_stored (MPI_Start kind) start_err k c))"
proof (cases "start_err = MPI_SUCCESS")
  case True
  then show ?thesis
    using tracked_start [OF assms, of kind] assms(2) by (simp add: start_stored_def MPI_Start_def)
next
  case False
  then show ?thesis
    using tracked_reassign [OF assms] assms(2) by (simp add: start_stored_def MPI_Start_def)
qed

lemma nonblocking_tracked:
  assumes "tracked c"
  shows "tracked (snd (case wait_or_insert wait_err k c of
                         (Inl e, c1) \<Rightarrow> (Inl e, c1)
                       | (Inr u, c1) \<Rightarrow> start_stored (MPI_Start kind) start_err k c1))"
proof -
  obtain r c1 where w: "wait_or_insert wait_err k c = (r, c1)" by (cases "wait_or_insert wait_err k c")
  have t: "tracked c1" using wait_or_insert_tracked(1) [OF assms, of wait_err k] w by simp
  show ?thesis
  proof (cases r)
    case (Inl e)
    with w t show ?thesis by simp
  next
    case (Inr u)
    have "map_find k (requests c1) = Some MPI_REQUEST_NULL"
      using wait_or_insert_tracked(2) [OF assms, of wait_err k u] w Inr by simp
    from start_stored_tracked [OF t this] w Inr show ?thesis by simp
  qed
qed

lemma reachable_tracked: "reachable c \<Longrightarrow> tracked c"
proof (induction rule: reachable.induct)
  case reachable_new
  show ?case by (rule tracked_new)
next
  case (reachable_isend c wait_err start_err dest_rank tag)
  then show ?case
    using nonblocking_tracked [where c = c and wait_err = wait_err and k = "(dest_rank, tag)" and kind = Isend and start_err = start_err]
    unfolding isend_def Let_def MPI_Isend_def by simp
next
  case (reachable_isend_status c wait_err start_err dest_rank tag)
  then show ?case
    using nonblocking_tracked [where c = c and wait_err = wait_err and k = "(dest_rank, tag)" and kind = Isend and start_err = start_err]
    unfolding isend_status_def Let_def MPI_Isend_def by simp
next
  case (reachable_irecv c wait_err start_err src_rank tag)
  then show ?case
    using nonblocking_tracked [where c = c and wait_err = wait_err and k = "(src_rank, tag)" and kind = Irecv and start_err = start_err]
    unfolding irecv_def Let_def MPI_Irecv_def by simp
next
  case (reachable_irecv_status c wait_err start_err src_rank tag)
  then show ?case
    using nonblocking_tracked [where c = c and wait_err = wait_err and k = "(src_rank, tag)" and kind = Irecv and start_err = start_err]
    unfolding irecv_status_def Let_def MPI_Irecv_def by simp
qed


lemma prior_request_waited:
  assumes "tracked c" and "map_find k (requests c) = Some (Active h)"
  shows "(wait_err = MPI_SUCCESS \<longrightarrow>
            (\<forall>kind' idx. (h, kind', idx) \<notin> set (in_flight (mpi (snd
               (case wait_or_insert wait_err k c of
                  (Inl e, c1) \<Rightarrow> (Inl e, c1)
                | (Inr u, c1) \<Rightarrow> start_stored (MPI_Start kind) start_err k c1))))))
       \<and> (wait_err \<noteq> MPI_SUCCESS \<longrightarrow>
            (case wait_or_insert wait_err k c of
                  (Inl e, c1) \<Rightarrow> (Inl e, c1)
                | (Inr u, c1) \<Rightarrow> start_stored (MPI_Start kind) start_err k c1)
             = (Inl (RuntimeError ''MPI encountered an error''),
                c\<lparr>requests := map_assign k (Active h) (requests c)\<rparr>))"
proof -
  have stored: "(k, Active h) \<in> set (requests c)"
    using assms(2) by (simp add: map_find_def map_of_SomeD)
  then have lt: "h < next_handle (mpi c)" using assms(1) unfolding tracked_def by blast
  have f: "map_find k (map_assign k MPI_REQUEST_NULL (requests c)) = Some MPI_REQUEST_NULL"
    using assms(2) by (simp add: find_map_assign)
  show ?thesis
    using lt f assms(2)
    by (auto simp: wait_or_insert_def wait_stored_cases [OF assms(2)] start_stored_def MPI_Start_def
          check_mpi_error_def)
qed

text \<open>
  Claim C6. In every state the communicator reaches through \<^verbatim>\<open>isend\<close>,
  \<^verbatim>\<open>isend_status\<close>, \<^verbatim>\<open>irecv\<close> and \<^verbatim>\<open>irecv_status\<close>, no two requests in flight share
  a \<open>(peer, tag)\<close> pair. A call of any of the four whose index has a stored request
  \<open>h\<close> waits on it first: if the wait succeeds, \<open>h\<close> is no longer in flight when the
  call ends; if the wait fails, the call throws and the library's state is unchanged (no
  new request has been issued).
\<close>

theorem no_two_requests_share_index:
  assumes "reachable c"
  shows "no_shared_index c
    \<and> (\<forall>op \<in> {isend, isend_status, irecv, irecv_status}.
         map_find (peer, tag) (requests c) = Some (Active h) \<longrightarrow>
           (wait_err = MPI_SUCCESS \<longrightarrow>
              (\<forall>kind idx. (h, kind, idx) \<notin> set (in_flight (mpi (snd (op wait_err start_err peer tag c))))))
         \<and> (wait_err \<noteq> MPI_SUCCESS \<longrightarrow>
              fst (op wait_err start_err peer tag c) = Inl (RuntimeError ''MPI encountered an error'')
              \<and> mpi (snd (op wait_err start_err peer tag c)) = mpi c))"
proof -
  have t: "tracked c" using assms by (rule reachable_tracked)
  have p: "(wait_err = MPI_SUCCESS \<longrightarrow>
              (\<forall>kind' idx. (h, kind', idx) \<notin> set (in_flight (mpi (snd
               (case wait_or_insert wait_err (peer, tag) c of
                  (Inl e, c1) \<Rightarrow> (Inl e, c1)
                | (Inr u, c1) \<Rightarrow> start_stored (MPI_Start kind) start_err (peer, tag) c1))))))
         \<and> (wait_err \<noteq> MPI_SUCCESS \<longrightarrow>
              fst (case wait_or_insert wait_err (peer, tag) c of
                  (Inl e, c1) \<Rightarrow> (Inl e, c1)
                | (Inr u, c1) \<Rightarrow> start_stored (MPI_Start kind) start_err (peer, tag) c1)
                = Inl (RuntimeError ''MPI encountered an error'')
              \<and> mpi (snd (case wait_or_insert wait_err (peer, tag) c of
                  (Inl e, c1) \<Rightarrow> (Inl e, c1)
                | (Inr u, c1) \<Rightarrow> start_stored (MPI_Start kind) start_err (peer, tag) c1)) = mpi c)"
    if "map_find (peer, tag) (requests c) = Some (Active h)" for kind
    using prior_request_waited [OF t that, of wait_err kind start_err] by auto
  show ?thesis
    using t p [of Isend] p [of Irecv]
    unfolding isend_def isend_status_def irecv_def irecv_status_def Let_def MPI_Isend_def MPI_Irecv_def
    by (simp add: tracked_def)
qed

lemma comm_one_pending_eq:
  "comm_one_pending =
     \<lparr>requests = [((1, 5), Active 0)], mpi = \<lparr>next_handle = 1, in_flight = [(0, Isend, (1, 5))]\<rparr>\<rparr>"
  by (simp add: Let_def comm_one_pending_def isend_def wait_or_insert_def start_stored_def MpiP2P_new_def
        map_find_def map_insert_def map_assign_def MPI_Isend_def MPI_Start_def check_mpi_error_def
        MPI_SUCCESS_def)

theorem no_two_requests_share_index_witness:
  "reachable comm_one_pending
   \<and> no_shared_index comm_one_pending
   \<and> map_find (1, 5) (requests comm_one_pending) = Some (Active 0)
   \<and> (\<forall>kind idx. (0, kind, idx) \<notin> set (in_flight (mpi (snd (irecv MPI_SUCCESS MPI_SUCCESS 1 5 comm_one_pending)))))
   \<and> in_flight (mpi (snd (irecv MPI_SUCCESS MPI_SUCCESS 1 5 comm_one_pending))) = [(1, Irecv, (1, 5))]"
proof -
  have r: "reachable comm_one_pending"
    unfolding comm_one_pending_def by (intro reachable.intros)
  have m: "map_find (1, 5) (requests comm_one_pending) = Some (Active 0)"
    by (simp add: comm_one_pending_eq map_find_def)
  have e: "in_flight (mpi (snd (irecv MPI_SUCCESS MPI_SUCCESS 1 5 comm_one_pending))) = [(1, Irecv, (1, 5))]"
    by (simp add: Let_def comm_one_pending_eq irecv_def wait_or_insert_def wait_stored_def start_stored_def
        map_find_def map_assign_def MPI_Irecv_def MPI_Start_def MPI_Wait_def check_mpi_error_def
        MPI_SUCCESS_def)
  show ?thesis
    using r m e no_two_requests_share_index [OF r, of 1 5 0 MPI_SUCCESS MPI_SUCCESS] by simp
qed

section \<open>The acceptance bound of the convergence test\<close>

text \<open>
  In the Gauss-Lobatto scenario the claim's bound is \<open>0.95 \<cdot> (2M - 2)\<close>. The test
  subtracts the \<open>2\<close> after the safety factor has been applied: with \<open>M = 3\<close> nodes
  (\<open>niters = 4\<close>, \<open>nsteps = 7, 9, 11, 13\<close>, \<open>Tend = 0.66\<close>) a measured rate of \<open>3.75\<close> is
  accepted although it is below \<open>0.95 \<cdot> 4 = 3.8\<close>.
\<close>

theorem lobatto_rate_below_spec_bound_counterexample:
  "set_parameters GaussLobatto 3 =
     \<lparr>niters = 4, Tend = 66 / 100, nsteps = [7, 9, 11, 13], nnodes_in_call = 3\<rparr>
   \<and> AllNodes_accepts GaussLobatto 3 (375 / 100)
   \<and> \<not> (375 / 100 \<ge> spec_lobatto_bound 3)"
  by (simp add: AllNodes_accepts_def size_t_sub_def spec_lobatto_bound_def)

text \<open>
  Claim C9, amended. In the Gauss-Lobatto scenario with \<open>M\<close> nodes (\<open>niters = 2M - 2\<close>,
  \<open>nsteps = 7, 9, 11, 13\<close>, \<open>Tend = 0.66\<close>) the test accepts a measured rate \<open>r\<close> exactly
  when \<open>r \<ge> 0.95 \<cdot> 2 \<cdot> M - 2\<close>. This bound lies \<open>0.1\<close> below the spec's
  \<open>0.95 \<cdot> (2M - 2)\<close> for every \<open>M\<close>: every rate that meets the spec's bound is accepted,
  and the rates accepted below the spec's bound are those from \<open>1.9 M - 2\<close> up to, but
  excluding, \<open>1.9 M - 1.9\<close>.
\<close>

theorem lobatto_acceptance_bound:
  "(1 \<le> M \<and> 2 * M < 2 ^ 64 \<longrightarrow>
      set_parameters GaussLobatto M =
        \<lparr>niters = 2 * M - 2, Tend = 66 / 100, nsteps = [7, 9, 11, 13], nnodes_in_call = M\<rparr>)
   \<and> (AllNodes_accepts GaussLobatto M r \<longleftrightarrow> r \<ge> 95 / 100 * 2 * real M - 2)
   \<and> 95 / 100 * 2 * real M - 2 = spec_lobatto_bound M - 1 / 10
   \<and> (r \<ge> spec_lobatto_bound M \<longrightarrow> AllNodes_accepts GaussLobatto M r)
   \<and> (AllNodes_accepts GaussLobatto M r \<and> \<not> r \<ge> spec_lobatto_bound M
        \<longleftrightarrow> 19 / 10 * real M - 2 \<le> r \<and> r < 19 / 10 * real M - 19 / 10)"
proof (intro conjI impI)
  assume m: "1 \<le> M \<and> 2 * M < 2 ^ 64"
  then have "(2 * M + 2 ^ 64 - 2) mod 2 ^ 64 = 2 * M - 2"
  proof -
    have "2 * M + 2 ^ 64 - 2 = (2 * M - 2) + 1 * 2 ^ 64" using m by simp
    then have "(2 * M + 2 ^ 64 - 2) mod 2 ^ 64 = (2 * M - 2) mod 2 ^ 64"
      by (simp only: mod_mult_self1)
    also have "\<dots> = 2 * M - 2"
    proof (rule mod_less)
      have "2 * M - 2 \<le> 2 * M" by simp
      also have "\<dots> < 2 ^ 64" using m by simp
      finally show "2 * M - 2 < 2 ^ 64" .
    qed
    finally show ?thesis .
  qed
  with m show "set_parameters GaussLobatto M =
      \<lparr>niters = 2 * M - 2, Tend = 66 / 100, nsteps = [7, 9, 11, 13], nnodes_in_call = M\<rparr>"
    by (simp add: size_t_sub_def)
next
  show "AllNodes_accepts GaussLobatto M r \<longleftrightarrow> r \<ge> 95 / 100 * 2 * real M - 2"
    by (simp add: AllNodes_accepts_def)
next
  show "95 / 100 * 2 * real M - 2 = spec_lobatto_bound M - 1 / 10"
    by (simp add: spec_lobatto_bound_def algebra_simps)
next
  assume "r \<ge> spec_lobatto_bound M"
  then show "AllNodes_accepts GaussLobatto M r"
    by (simp add: AllNodes_accepts_def spec_lobatto_bound_def algebra_simps)
next
  show "AllNodes_accepts GaussLobatto M r \<and> \<not> r \<ge> spec_lobatto_bound M
        \<longleftrightarrow> 19 / 10 * real M - 2 \<le> r \<and> r < 19 / 10 * real M - 19 / 10"
    by (auto simp: AllNodes_accepts_def spec_lobatto_bound_def algebra_simps)
qed

theorem lobatto_acceptance_bound_witness:
  "(1 \<le> (3::nat) \<and> 2 * (3::nat) < 2 ^ 64)
   \<and> set_parameters GaussLobatto 3 =
        \<lparr>niters = 4, Tend = 66 / 100, nsteps = [7, 9, 11, 13], nnodes_in_call = 3\<rparr>
   \<and> (4::real) \<ge> spec_lobatto_bound 3
   \<and> AllNodes_accepts GaussLobatto 3 4
   \<and> \<not> AllNodes_accepts GaussLobatto 3 (36 / 10)"
proof -
  have a: "1 \<le> (3::nat) \<and> 2 * (3::nat) < 2 ^ 64" by simp
  have b: "(4::real) \<ge> spec_lobatto_bound 3" by (simp add: spec_lobatto_bound_def)
  have c: "\<not> (36 / 10 :: real) \<ge> 95 / 100 * 2 * real (3::nat) - 2" by simp
  from lobatto_acceptance_bound [of 3 4] a b
  have p: "set_parameters GaussLobatto 3 =
        \<lparr>niters = 2 * 3 - 2, Tend = 66 / 100, nsteps = [7, 9, 11, 13], nnodes_in_call = 3\<rparr>"
    and q: "AllNodes_accepts GaussLobatto 3 4" by blast+
  from lobatto_acceptance_bound [of 3 "36 / 10"] c
  have r: "\<not> AllNodes_accepts GaussLobatto 3 (36 / 10)" by blast
  from p have p': "set_parameters GaussLobatto 3 =
        \<lparr>niters = 4, Tend = 66 / 100, nsteps = [7, 9, 11, 13], nnodes_in_call = 3\<rparr>" by simp
  show ?thesis using a b p' q r by blast
qed
section \<open>Errors of the 3D spectral transfer\<close>

































section \<open>The round trip of the 1D spectral transfer\<close>

lemma cis_eq_1_imp:
  assumes "cis (2 * pi * real_of_int d / real N) = 1" and "0 < N"
  shows "int N dvd d"
proof -
  have "cos (2 * pi * real_of_int d / real N) = 1"
    using arg_cong [OF assms(1), of Re] by simp
  then obtain j :: int where j: "2 * pi * real_of_int d / real N = real_of_int j * 2 * pi"
    using cos_one_2pi_int by blast
  then have "2 * pi * real_of_int d = real_of_int j * 2 * pi * real N"
    using assms(2) by (simp add: field_simps)
  then have "(2 * pi) * real_of_int d = (2 * pi) * (real_of_int j * real N)" by (simp add: mult_ac)
  then have "real_of_int d = real_of_int j * real N"
    using pi_gt_zero by simp
  then have "real_of_int d = real_of_int (j * int N)" by simp
  then have "d = j * int N" by (simp only: of_int_eq_iff)
  then show ?thesis by simp
qed

lemma sum_roots_of_unity:
  assumes "0 < N"
  shows "(\<Sum>k<N. cis (2 * pi * real_of_int d * real k / real N)) =
           (if int N dvd d then of_nat N else 0)"
proof -
  let ?x = "cis (2 * pi * real_of_int d / real N)"
  have p: "cis (2 * pi * real_of_int d * real k / real N) = ?x ^ k" for k
    by (simp add: DeMoivre mult_ac)
  have xN: "?x ^ N = 1"
  proof -
    have "?x ^ N = cis (2 * pi * real_of_int d)" using assms by (simp add: DeMoivre)
    then show ?thesis by simp
  qed
  show ?thesis
  proof (cases "int N dvd d")
    case True
    then obtain j where "d = int N * j" by (elim dvdE)
    then have "2 * pi * real_of_int d / real N = 2 * pi * real_of_int j" using assms by simp
    then have "?x = 1" by simp
    then show ?thesis using True by (simp add: p)
  next
    case False
    then have "?x \<noteq> 1" using cis_eq_1_imp [OF _ assms] by blast
    then show ?thesis using False by (simp add: p sum_gp_strict xN)
  qed
qed


lemma dvd_diff_small:
  assumes "m < N" "n < N"
  shows "int N dvd (int m - int n) \<longleftrightarrow> n = m"
proof
  assume d: "int N dvd (int m - int n)"
  show "n = m"
  proof (rule ccontr)
    assume "n \<noteq> m"
    then have "int m - int n \<noteq> 0" by simp
    from dvd_imp_le_int [OF this d] have "int N \<le> \<bar>int m - int n\<bar>" by simp
    with assms show False by linarith
  qed
qed simp

lemma dft_forward_nth:
  "k < length z \<Longrightarrow>
     dft_forward z ! k = (\<Sum>n < length z. z ! n * cis (- (2 * pi * real k * real n / real (length z))))"
  by (simp add: dft_forward_def)

lemma length_dft_forward [simp]: "length (dft_forward z) = length z"
  by (simp add: dft_forward_def)

lemma dft_inversion:
  assumes "m < length z"
  shows "(\<Sum>k < length z. dft_forward z ! k * cis (2 * pi * real m * real k / real (length z)))
           = of_nat (length z) * z ! m"
proof -
  let ?N = "length z"
  have N: "0 < ?N" using assms by (cases z) auto
  have e: "cis (- (2 * pi * real k * real n / real ?N)) * cis (2 * pi * real m * real k / real ?N)
      = cis (2 * pi * real_of_int (int m - int n) * real k / real ?N)" for k n
    by (simp add: cis_mult field_simps) (simp add: algebra_simps flip: add_divide_distrib diff_divide_distrib)
  have step: "dft_forward z ! k * cis (2 * pi * real m * real k / real ?N)
      = (\<Sum>n < ?N. z ! n * cis (2 * pi * real_of_int (int m - int n) * real k / real ?N))"
    if "k < ?N" for k
  proof -
    have "dft_forward z ! k * cis (2 * pi * real m * real k / real ?N)
        = (\<Sum>n < ?N. z ! n * cis (- (2 * pi * real k * real n / real ?N)))
            * cis (2 * pi * real m * real k / real ?N)"
      by (simp only: dft_forward_nth [OF that])
    also have "\<dots> = (\<Sum>n < ?N. z ! n * (cis (- (2 * pi * real k * real n / real ?N))
            * cis (2 * pi * real m * real k / real ?N)))"
      by (simp only: sum_distrib_right mult.assoc)
    finally show ?thesis by (simp only: e)
  qed
  have "(\<Sum>k < ?N. dft_forward z ! k * cis (2 * pi * real m * real k / real ?N))
      = (\<Sum>k < ?N. \<Sum>n < ?N. z ! n * cis (2 * pi * real_of_int (int m - int n) * real k / real ?N))"
    by (rule sum.cong) (simp_all only: step lessThan_iff)
  also have "\<dots> = (\<Sum>n < ?N. \<Sum>k < ?N. z ! n * cis (2 * pi * real_of_int (int m - int n) * real k / real ?N))"
    by (rule sum.swap)
  also have "\<dots> = (\<Sum>n < ?N. z ! n * (if int ?N dvd (int m - int n) then of_nat ?N else 0))"
    by (simp only: sum_roots_of_unity [OF N] flip: sum_distrib_left)
  also have "\<dots> = (\<Sum>n < ?N. if n = m then z ! n * of_nat ?N else 0)"
    by (rule sum.cong) (simp_all add: dvd_diff_small [OF assms])
  also have "\<dots> = z ! m * of_nat ?N"
    using assms by (simp add: sum.delta)
  finally show ?thesis by (simp add: mult.commute)
qed

lemma cis_pi_nat: "cis (pi * real m) = (- 1) ^ m"
  using DeMoivre [of pi m] by (simp add: mult.commute)

lemma cis_minus_pi_nat: "cis (- (pi * real m)) = (- 1) ^ m"
proof -
  have "cis (- (pi * real m)) = cis (real m * (- pi))" by (simp add: mult.commute)
  also have "\<dots> = cis (- pi) ^ m" by (simp only: DeMoivre)
  also have "cis (- pi) = - 1" by (simp flip: cis_cnj)
  finally show ?thesis .
qed

lemma dft_forward_nyquist:
  assumes "length c = 2 * h" "0 < h"
  shows "dft_forward (map complex_of_real c) ! h = complex_of_real (alternating_sum c)"
proof -
  have a: "2 * pi * real h * real n / real (2 * h) = pi * real n" for n
    using assms(2) by simp
  have "dft_forward (map complex_of_real c) ! h
      = (\<Sum>n < 2 * h. complex_of_real (c ! n) * cis (- (2 * pi * real h * real n / real (2 * h))))"
    using assms by (simp add: dft_forward_nth)
  also have "\<dots> = (\<Sum>n < 2 * h. complex_of_real (c ! n) * (- 1) ^ n)"
    by (simp only: a cis_minus_pi_nat)
  also have "\<dots> = complex_of_real (\<Sum>n < 2 * h. (- 1) ^ n * c ! n)"
    by (simp add: mult.commute)
  finally show ?thesis by (simp add: alternating_sum_def assms(1))
qed


lemma fold_z_write:
  assumes "fn \<noteq> cn"
  shows "fold (\<lambda>i w. z_write w fn (g i) (F i (z_read w cn (r i)))) is w
           = w(fn := fold (\<lambda>i z. z[g i := F i (w cn ! r i)]) is (w fn))"
proof (induction "is" arbitrary: w)
  case Nil
  show ?case by simp
next
  case (Cons i "is")
  let ?w' = "z_write w fn (g i) (F i (z_read w cn (r i)))"
  have 1: "?w' cn = w cn" "?w' fn = (w fn)[g i := F i (w cn ! r i)]"
    using assms by (simp_all add: z_write_def z_read_def)
  have 2: "?w'(fn := x) = w(fn := x)" for x
    by (simp add: z_write_def)
  show ?case
    by (simp only: fold_simps Cons.IH 1 2)
qed

lemma length_fold_update [simp]: "length (fold (\<lambda>i z. z[g i := v i]) is z) = length z"
  by (induction "is" arbitrary: z) simp_all

lemma nth_fold_update:
  assumes "k < length z"
  shows "fold (\<lambda>i z. z[a + i := v i]) [lo..<hi] z ! k =
     (if a + lo \<le> k \<and> k < a + hi then v (k - a) else z ! k)"
proof (induction hi)
  case 0
  show ?case by auto
next
  case (Suc hi)
  show ?case
  proof (cases "lo \<le> hi")
    case False
    then show ?thesis by auto
  next
    case True
    then have u: "[lo..<Suc hi] = [lo..<hi] @ [hi]" by simp
    show ?thesis
    proof (cases "k = a + hi")
      case True
      have "(fold (\<lambda>i z. z[a + i := v i]) [lo..<hi] z)[a + hi := v hi] ! k = v hi"
        unfolding True using assms True by (intro nth_list_update_eq) simp
      then show ?thesis
        unfolding u fold_append o_apply using True \<open>lo \<le> hi\<close> by simp
    next
      case False
      have "(fold (\<lambda>i z. z[a + i := v i]) [lo..<hi] z)[a + hi := v hi] ! k
          = fold (\<lambda>i z. z[a + i := v i]) [lo..<hi] z ! k"
        using False by (intro nth_list_update_neq) simp
      then show ?thesis
        unfolding u fold_append o_apply using Suc.IH False by auto
    qed
  qed
qed

lemma nth_fold_update0:
  assumes "k < length z"
  shows "fold (\<lambda>i z. z[i := v i]) [lo..<hi] z ! k = (if lo \<le> k \<and> k < hi then v k else z ! k)"
  using nth_fold_update [OF assms, of 0 v lo hi] by simp

lemma fold_update_all:
  assumes "length z = n"
  shows "fold (\<lambda>i z. z[i := v i]) [0..<n] z = map v [0..<n]"
  using assms by (intro nth_equalityI) (simp_all add: nth_fold_update0)


text \<open>The spectrum that the three loops of the interpolation leave in the fine buffer.\<close>

lemma interpolate_data_spectrum:
  assumes c: "length (data coarse) = 2 * h" and h: "0 < h" and f: "length (data fine) = 4 * h"
    and wf: "\<forall>n. length (fft n) = n"
  shows "\<exists>Z fft'. interpolate_data fft coarse fine = Inr (fine\<lparr>data := map Re (dft_backward Z)\<rparr>, fft')
     \<and> length Z = 4 * h
     \<and> (\<forall>k < 4 * h. Z ! k =
          (if 3 * h < k
           then complex_of_real (1 / real (2 * h)) * dft_forward (map complex_of_real (data coarse)) ! (k - 2 * h)
           else if k < h
           then complex_of_real (1 / real (2 * h)) * dft_forward (map complex_of_real (data coarse)) ! k
           else 0))"
proof -
  let ?C = "dft_forward (map complex_of_real (data coarse))"
  let ?c = "complex_of_real (1 / real (2 * h))"
  let ?cn = "2 * h" and ?fn = "4 * h"
  have ne: "?fn \<noteq> ?cn" using h by simp
  let ?f1 = "forward coarse fft"
  have f1: "?f1 ?cn = ?C" "?f1 ?fn = fft ?fn"
    using ne by (simp_all add: forward_def c)
  let ?Z2 = "fold (\<lambda>i z. z[i := 0]) [0..<?fn] (fft ?fn)"
  let ?Z3 = "fold (\<lambda>i z. z[i := ?c * (?C ! i)]) [0..<h] ?Z2"
  let ?Z4 = "fold (\<lambda>i z. z[?fn - h + i := ?c * (?C ! (h + i))]) [1..<h] ?Z3"
  have 2: "fold (\<lambda>i w. z_write w ?fn i 0) [0..<?fn] ?f1 = ?f1(?fn := ?Z2)"
    using fold_z_write [OF ne, of "\<lambda>i. i" "\<lambda>i x. 0" "\<lambda>i. i" "[0..<?fn]" ?f1] by (simp only: f1)
  have 3: "fold (\<lambda>i w. z_write w ?fn i (?c * z_read w ?cn i)) [0..<h] (?f1(?fn := ?Z2))
      = ?f1(?fn := ?Z3)"
    using fold_z_write [OF ne, of "\<lambda>i. i" "\<lambda>i x. ?c * x" "\<lambda>i. i" "[0..<h]" "?f1(?fn := ?Z2)"] ne
    by (simp add: f1)
  have 4: "fold (\<lambda>i w. z_write w ?fn (?fn - h + i) (?c * z_read w ?cn (h + i))) [1..<h] (?f1(?fn := ?Z3))
      = ?f1(?fn := ?Z4)"
    using fold_z_write [OF ne, of "\<lambda>i. ?fn - h + i" "\<lambda>i x. ?c * x" "\<lambda>i. h + i" "[1..<h]" "?f1(?fn := ?Z3)"] ne
    by (simp add: f1)
  have d: "2 * h div 2 = h" by simp
  have I: "interpolate_data fft coarse fine = Inr (backward fine (?f1(?fn := ?Z4)))"
    unfolding interpolate_data_def Let_def c f d using h by (simp only: 2 3 4) simp
  have lZ: "length ?Z4 = ?fn" using wf by simp
  have B: "backward fine (?f1(?fn := ?Z4)) =
      (fine\<lparr>data := map Re (dft_backward ?Z4)\<rparr>, (?f1(?fn := ?Z4))(?fn := dft_backward ?Z4))"
    by (simp add: backward_def f Let_def)
  have Z: "?Z4 ! k = (if 3 * h < k then ?c * ?C ! (k - 2 * h) else if k < h then ?c * ?C ! k else 0)"
    if "k < ?fn" for k
  proof -
    have l2: "length ?Z2 = ?fn" "length ?Z3 = ?fn" using wf by simp_all
    have z2: "?Z2 ! k = 0" using that wf by (simp add: nth_fold_update0)
    have z3: "?Z3 ! k = (if k < h then ?c * ?C ! k else 0)"
      using that l2 z2 by (simp add: nth_fold_update0)
    have z4: "?Z4 ! k = (if ?fn - h + 1 \<le> k \<and> k < ?fn - h + h then ?c * ?C ! (h + (k - (?fn - h))) else ?Z3 ! k)"
      using that l2 by (intro nth_fold_update) simp
    have a: "?fn - h + 1 \<le> k \<and> k < ?fn - h + h \<longleftrightarrow> 3 * h < k" using that by auto
    have b: "h + (k - (?fn - h)) = k - 2 * h" if "3 * h < k" using that by auto
    show ?thesis unfolding z4 a z3 using b by auto
  qed
  show ?thesis
    using I B lZ Z by (intro exI [of _ ?Z4] exI conjI) (simp_all only: simp_thms, blast)
qed


lemma padded_spectrum_sum:
  fixes Z C :: "complex list" and c :: complex
  assumes h: "0 < h"
    and Z: "\<forall>k < 4 * h. Z ! k = (if 3 * h < k then c * C ! (k - 2 * h) else if k < h then c * C ! k else 0)"
  shows "(\<Sum>k < 4 * h. Z ! k * cis (2 * pi * real (2 * m) * real k / real (4 * h)))
       = c * ((\<Sum>k < 2 * h. C ! k * cis (2 * pi * real m * real k / real (2 * h)))
              - C ! h * cis (2 * pi * real m * real h / real (2 * h)))"
proof -
  define E where "E k = cis (2 * pi * real m * real k / real (2 * h))" for k
  have E1: "cis (2 * pi * real (2 * m) * real k / real (4 * h)) = E k" for k
    using h by (simp add: E_def field_simps)
  have E2: "E (j + 2 * h) = E j" for j
  proof -
    have "2 * pi * real m * real (j + 2 * h) / real (2 * h)
        = 2 * pi * real m * real j / real (2 * h) + 2 * pi * real m"
      using h by (simp add: field_simps)
    then have "E (j + 2 * h) = E j * cis (2 * pi * real m)"
      unfolding E_def by (simp only: cis_mult)
    then show ?thesis by simp
  qed
  let ?G = "\<lambda>k. Z ! k * E k"
  let ?H = "\<lambda>k. c * (C ! k * E k)"
  have Zlow: "Z ! k = c * C ! k" if "k < h" for k
  proof -
    have "k < 4 * h" using that by simp
    with Z that show ?thesis by simp
  qed
  have Zmid: "Z ! k = 0" if "h \<le> k" "k < 3 * h + 1" for k
  proof -
    have "k < 4 * h" using that h by simp
    with Z that show ?thesis by simp
  qed
  have Zhigh: "Z ! (j + 2 * h) = c * C ! j" if "h + 1 \<le> j" "j < 2 * h" for j
  proof -
    have "j + 2 * h < 4 * h" "3 * h < j + 2 * h" using that by simp_all
    with Z show ?thesis by simp
  qed
  have s1: "sum ?G {0..<h} = sum ?H {0..<h}"
    by (rule sum.cong) (simp_all add: Zlow)
  have s2: "sum ?G {h..<3 * h + 1} = 0"
    by (rule sum.neutral) (simp add: Zmid)
  have "sum ?G {3 * h + 1..<4 * h} = sum ?G {(h + 1) + 2 * h..<2 * h + 2 * h}"
    by (simp add: add.commute)
  also have "\<dots> = sum (\<lambda>j. ?G (j + 2 * h)) {h + 1..<2 * h}"
    by (rule sum.shift_bounds_nat_ivl)
  also have "\<dots> = sum ?H {h + 1..<2 * h}"
    by (rule sum.cong) (simp_all add: Zhigh E2)
  finally have s3: "sum ?G {3 * h + 1..<4 * h} = sum ?H {h + 1..<2 * h}" .
  have c1: "sum ?G {0..<h} + sum ?G {h..<3 * h + 1} = sum ?G {0..<3 * h + 1}"
    by (rule sum.atLeastLessThan_concat) simp_all
  have c2: "sum ?G {0..<3 * h + 1} + sum ?G {3 * h + 1..<4 * h} = sum ?G {0..<4 * h}"
    by (rule sum.atLeastLessThan_concat) (use h in simp_all)
  have "sum ?G {0..<4 * h} = sum ?G {0..<h} + sum ?G {h..<3 * h + 1} + sum ?G {3 * h + 1..<4 * h}"
    by (simp only: c1 c2)
  also have "\<dots> = sum ?H {0..<h} + sum ?H {h + 1..<2 * h}"
    by (simp only: s1 s2 s3) simp
  finally have G: "sum ?G {0..<4 * h} = sum ?H {0..<h} + sum ?H {h + 1..<2 * h}" .
  have d1: "sum ?H {0..<h} + sum ?H {h..<h + 1} = sum ?H {0..<h + 1}"
    by (rule sum.atLeastLessThan_concat) simp_all
  have d2: "sum ?H {0..<h + 1} + sum ?H {h + 1..<2 * h} = sum ?H {0..<2 * h}"
    by (rule sum.atLeastLessThan_concat) (use h in simp_all)
  have d3: "sum ?H {h..<h + 1} = ?H h" by simp
  have H: "sum ?H {0..<h} + sum ?H {h + 1..<2 * h} = sum ?H {0..<2 * h} - ?H h"
    using d1 d2 unfolding d3 by (simp add: algebra_simps)
  have "(\<Sum>k < 4 * h. Z ! k * cis (2 * pi * real (2 * m) * real k / real (4 * h))) = sum ?G {0..<4 * h}"
    by (simp only: E1 lessThan_atLeast0)
  also have "\<dots> = sum ?H {0..<2 * h} - ?H h" by (simp only: G H)
  also have "\<dots> = c * (sum (\<lambda>k. C ! k * E k) {0..<2 * h} - C ! h * E h)"
    by (simp add: sum_distrib_left right_diff_distrib)
  finally show ?thesis by (simp only: E_def lessThan_atLeast0)
qed


lemma dft_backward_nth:
  "j < length z \<Longrightarrow>
     dft_backward z ! j = (\<Sum>k < length z. z ! k * cis (2 * pi * real j * real k / real (length z)))"
  by (simp add: dft_backward_def)

lemma length_dft_backward [simp]: "length (dft_backward z) = length z"
  by (simp add: dft_backward_def)

lemma interpolated_even_point:
  assumes c: "length c = 2 * h" and h: "0 < h" and lZ: "length Z = 4 * h" and i: "i < 2 * h"
    and Z: "\<forall>k < 4 * h. Z ! k =
          (if 3 * h < k
           then complex_of_real (1 / real (2 * h)) * dft_forward (map complex_of_real c) ! (k - 2 * h)
           else if k < h
           then complex_of_real (1 / real (2 * h)) * dft_forward (map complex_of_real c) ! k
           else 0)"
  shows "map Re (dft_backward Z) ! (2 * i) = c ! i - (- 1) ^ i * alternating_sum c / real (2 * h)"
proof -
  let ?C = "dft_forward (map complex_of_real c)"
  have i2: "2 * i < length Z" using i lZ by simp
  have inv: "(\<Sum>k < 2 * h. ?C ! k * cis (2 * pi * real i * real k / real (2 * h)))
      = of_nat (2 * h) * complex_of_real (c ! i)"
    using dft_inversion [of i "map complex_of_real c"] i c by simp
  have ny: "?C ! h = complex_of_real (alternating_sum c)"
    by (rule dft_forward_nyquist [OF c h])
  have e: "cis (2 * pi * real i * real h / real (2 * h)) = complex_of_real ((- 1) ^ i)"
  proof -
    have "2 * pi * real i * real h / real (2 * h) = pi * real i" using h by simp
    then show ?thesis by (simp add: cis_pi_nat)
  qed
  have "dft_backward Z ! (2 * i)
      = (\<Sum>k < 4 * h. Z ! k * cis (2 * pi * real (2 * i) * real k / real (4 * h)))"
    using dft_backward_nth [OF i2] by (simp only: lZ)
  also have "\<dots> = complex_of_real (1 / real (2 * h)) *
      ((\<Sum>k < 2 * h. ?C ! k * cis (2 * pi * real i * real k / real (2 * h)))
         - ?C ! h * cis (2 * pi * real i * real h / real (2 * h)))"
    by (rule padded_spectrum_sum [OF h Z])
  also have "\<dots> = complex_of_real (1 / real (2 * h)) *
      (of_nat (2 * h) * complex_of_real (c ! i) - complex_of_real (alternating_sum c) * complex_of_real ((- 1) ^ i))"
    by (simp only: inv ny e)
  also have "\<dots> = complex_of_real (1 / real (2 * h) * (real (2 * h) * c ! i - alternating_sum c * (- 1) ^ i))"
    by (simp only: of_real_mult of_real_diff of_real_of_nat_eq)
  finally have "Re (dft_backward Z ! (2 * i))
      = 1 / real (2 * h) * (real (2 * h) * c ! i - alternating_sum c * (- 1) ^ i)"
    by (simp only: Re_complex_of_real)
  also have "\<dots> = c ! i - (- 1) ^ i * alternating_sum c / real (2 * h)"
    using h by (simp add: field_simps)
  finally show ?thesis using i2 by simp
qed

lemma roundtrip_without_nyquist:
  assumes c: "length c = 2 * h" and h: "0 < h" and f: "length f = 4 * h" and c0: "length c0 = 2 * h"
    and wf: "\<forall>n. length (fft n) = n"
  shows "\<exists>fine' fft'. interpolate_data fft \<lparr>data = c\<rparr> \<lparr>data = f\<rparr> = Inr (fine', fft')
     \<and> restrict_data fine' \<lparr>data = c0\<rparr> = Inr \<lparr>data = without_nyquist c\<rparr>"
proof -
  from interpolate_data_spectrum [of "\<lparr>data = c\<rparr>" h "\<lparr>data = f\<rparr>" fft] c h f wf
  obtain Z fft' where I: "interpolate_data fft \<lparr>data = c\<rparr> \<lparr>data = f\<rparr>
        = Inr (\<lparr>data = f\<rparr>\<lparr>data := map Re (dft_backward Z)\<rparr>, fft')"
    and lZ: "length Z = 4 * h"
    and Z: "\<forall>k < 4 * h. Z ! k =
          (if 3 * h < k
           then complex_of_real (1 / real (2 * h)) * dft_forward (map complex_of_real c) ! (k - 2 * h)
           else if k < h
           then complex_of_real (1 / real (2 * h)) * dft_forward (map complex_of_real c) ! k
           else 0)"
    by auto
  let ?fine = "\<lparr>data = map Re (dft_backward Z)\<rparr>"
  have I': "interpolate_data fft \<lparr>data = c\<rparr> \<lparr>data = f\<rparr> = Inr (?fine, fft')"
    using I by simp
  have d: "4 * h div (2 * h) = 2" using h by simp
  have "restrict_data ?fine \<lparr>data = c0\<rparr>
      = Inr \<lparr>data = fold (\<lambda>i d. d[i := map Re (dft_backward Z) ! (2 * i)]) [0..<2 * h] c0\<rparr>"
    using h by (simp add: restrict_data_def Let_def lZ c0 d)
  also have "fold (\<lambda>i d. d[i := map Re (dft_backward Z) ! (2 * i)]) [0..<2 * h] c0
      = map (\<lambda>i. map Re (dft_backward Z) ! (2 * i)) [0..<2 * h]"
    by (rule fold_update_all [OF c0])
  also have "\<dots> = without_nyquist c"
    unfolding without_nyquist_def c
    by (rule map_cong [OF refl]) (simp add: interpolated_even_point [OF c h lZ _ Z])
  finally show ?thesis using I' by blast
qed


lemma without_nyquist_fixed: 
  assumes "0 < length c"
  shows "without_nyquist c = c \<longleftrightarrow> alternating_sum c = 0"
proof
  assume e: "without_nyquist c = c"
  have "without_nyquist c ! 0 = c ! 0 - alternating_sum c / real (length c)"
    using assms by (simp add: without_nyquist_def)
  with e have "alternating_sum c / real (length c) = 0" by simp
  with assms show "alternating_sum c = 0" by simp
next
  assume "alternating_sum c = 0"
  then show "without_nyquist c = c"
    by (simp add: without_nyquist_def map_nth)
qed

text \<open>
  Claim C3, amended. For a coarse vector \<open>c\<close> of positive even length \<open>N\<close> and a fine
  grid of length \<open>2N\<close>, interpolating \<open>c\<close> to the fine grid and restricting the result
  back returns \<open>c\<close> without its Nyquist mode: entry \<open>m\<close> is
  \<open>c[m] - (-1)\<^sup>m \<cdot> (\<Sum>n. (-1)\<^sup>n \<cdot> c[n]) / N\<close>. The round trip returns \<open>c\<close> itself exactly
  when the alternating sum of \<open>c\<close> vanishes.
\<close>

theorem interpolate_restrict_removes_nyquist:
  assumes "0 < length c" and "even (length c)" and "length f = 2 * length c"
    and "\<forall>n. length (fft n) = n"
  shows "interpolate_then_restrict fft \<lparr>data = c\<rparr> \<lparr>data = f\<rparr> = Inr \<lparr>data = without_nyquist c\<rparr>
       \<and> (without_nyquist c = c \<longleftrightarrow> alternating_sum c = 0)"
proof -
  from assms(2) obtain h where h: "length c = 2 * h" by (elim evenE)
  with assms(1) have h0: "0 < h" by simp
  have f: "length f = 4 * h" using assms(3) h by simp
  from roundtrip_without_nyquist [OF h h0 f h assms(4)]
  show ?thesis
    using without_nyquist_fixed [OF assms(1)] by (auto simp: interpolate_then_restrict_def)
qed

lemma fft_zeroed_wf: "\<forall>n. length (fft_zeroed n) = n"
  by (simp add: fft_zeroed_def)

lemma without_nyquist_1_0: "without_nyquist [1, 0] = [1 / 2, 1 / 2]"
  by (simp add: without_nyquist_def alternating_sum_def lessThan_Suc eval_nat_numeral)

text \<open>
  The round trip is not the identity: the coarse vector \<open>(1, 0)\<close> comes back as
  \<open>(1/2, 1/2)\<close>. The loop over the negative frequencies starts at \<open>i = 1\<close>, so the
  coefficient of the frequency \<open>N/2\<close> is never copied to the fine spectrum.
\<close>

theorem roundtrip_1_0_counterexample:
  "interpolate_then_restrict fft_zeroed \<lparr>data = [1, 0]\<rparr> \<lparr>data = [0, 0, 0, 0]\<rparr>
     = Inr \<lparr>data = [1 / 2, 1 / 2]\<rparr>"
proof -
  from roundtrip_without_nyquist [of "[1, 0]" 1 "[0, 0, 0, 0]" "[1, 0]" fft_zeroed] fft_zeroed_wf
  show ?thesis
    by (auto simp: interpolate_then_restrict_def without_nyquist_1_0)
qed

theorem interpolate_restrict_removes_nyquist_witness:
  "interpolate_then_restrict fft_zeroed \<lparr>data = [1, 2, 2, 1]\<rparr> \<lparr>data = [0, 0, 0, 0, 0, 0, 0, 0]\<rparr>
     = Inr \<lparr>data = [1, 2, 2, 1]\<rparr>"
proof -
  have a: "alternating_sum [1, 2, 2, 1] = 0"
    by (simp add: alternating_sum_def lessThan_Suc eval_nat_numeral)
  have l: "0 < length [1, 2, 2, 1 :: real]" "even (length [1, 2, 2, 1 :: real])"
      "length [0, 0, 0, 0, 0, 0, 0, 0 :: real] = 2 * length [1, 2, 2, 1 :: real]"
    by simp_all
  from interpolate_restrict_removes_nyquist [OF l fft_zeroed_wf] a
  show ?thesis by simp
qed

end
